theory Spec2Isabelle
  imports Main
begin

section \<open>literal\_t: a fixed-capacity literal (Langulus/Literal.hpp)\<close>

text \<open>
  The header defines one class template, \<^verbatim>\<open>literal_t<T, N>\<close>, holding
  \<^verbatim>\<open>std::array<T, N + 1> _data\<close>. The template arguments \<open>T\<close> and \<open>N\<close>
  are part of an instance's type; the embedding carries them as fields of a record, next to
  the storage, so that one HOL function covers every instantiation of a member template.
  Elements are values of a type with a zero (the value that \<^verbatim>\<open>*ptr\<close> tests as
  false); the one carrier \<open>'a\<close> holds the values of every element type. Where the code
  assigns an element to a slot of another element type, or compares elements of two
  element types, the language converts first: both the conversion and the mixed comparison
  are parameters of the embedding.
  All sizes and indices are \<^verbatim>\<open>size_t\<close> in the source and natural numbers here;
  no operation below computes a size that exceeds a capacity, so no wrap-around arises.
\<close>

subsection \<open>Capacity bucketing\<close>

text \<open>
  \<^verbatim>\<open>std::bit_ceil\<close> belongs to the standard header \<^verbatim>\<open><bit>\<close>, not to the
  repository. It is written here the way the common implementations compute it: 1 for an
  argument of at most 1, and otherwise 1 shifted left by the bit width of \<open>x - 1\<close>. (For
  \<^verbatim>\<open>size_t\<close> the result has to be representable; a larger template argument is
  rejected by the compiler.)
\<close>

fun bit_width :: "nat \<Rightarrow> nat" where
  "bit_width n = (if n = 0 then 0 else Suc (bit_width (n div 2)))"

declare bit_width.simps [simp del]

definition bit_ceil :: "nat \<Rightarrow> nat" where
  "bit_ceil x = (if x \<le> 1 then 1 else 2 ^ bit_width (x - 1))"

text \<open>
  \<^verbatim>\<open>template<size_t M> using Resized = literal_t<value_type, std::bit_ceil(M)>\<close>
  and the deduction guide
  \<^verbatim>\<open>literal_t(const T(&)[N]) -> literal_t<T, std::bit_ceil(N)>\<close>: the capacity
  of the resulting type.
\<close>

definition Resized :: "nat \<Rightarrow> nat" where
  "Resized M = bit_ceil M"

subsection \<open>Element types and the three categories\<close>

text \<open>
  The element type \<open>T\<close> of an instance. \<^verbatim>\<open>struct Unsupported {}\<close> is the
  marker of an undefined literal; the five character types are the ones that
  \<^verbatim>\<open>CT::LiteralChar\<close> accepts; \<open>Other\<close> names any further type.
\<close>

datatype elem_type = Unsupported | Char | Wchar_t | Char8_t | Char16_t | Char32_t | Other string

text \<open>
  \<^verbatim>\<open>template<class T, size_t N> struct literal_t\<close> with its static members
  \<^verbatim>\<open>value_type\<close> and \<^verbatim>\<open>ArraySize\<close> and the member
  \<^verbatim>\<open>storage_type _data {}\<close>.
\<close>

record 'a literal_t =
  value_type :: elem_type
  ArraySize :: nat
  data :: "'a list"

text \<open>\<^verbatim>\<open>using storage_type = std::array<T, N + 1>\<close>: the storage has \<open>N + 1\<close> slots.\<close>

definition well_shaped :: "'a literal_t \<Rightarrow> bool" where
  "well_shaped s = (length (data s) = Suc (ArraySize s))"

definition Undefined :: "'a literal_t \<Rightarrow> bool" where
  "Undefined s = (value_type s = Unsupported)"

definition LiteralChar :: "elem_type \<Rightarrow> bool" where
  "LiteralChar t = (t = Char \<or> t = Wchar_t \<or> t = Char8_t \<or> t = Char16_t \<or> t = Char32_t)"

definition LiteralString :: "'a literal_t \<Rightarrow> bool" where
  "LiteralString s = (0 < ArraySize s \<and> LiteralChar (value_type s))"

definition LiteralValue :: "'a literal_t \<Rightarrow> bool" where
  "LiteralValue s = (ArraySize s = 0 \<and> value_type s \<noteq> Unsupported)"

definition LiteralUndefined :: "'a literal_t \<Rightarrow> bool" where
  "LiteralUndefined s = (value_type s = Unsupported)"

text \<open>
  \<^verbatim>\<open>std::equality_comparable_with\<close> is a concept of the standard library. The
  marker \<^verbatim>\<open>Unsupported\<close> is an empty struct that declares no comparison, so it is
  comparable with nothing, itself included; character types are comparable with each other;
  for a pair that involves any other type the answer is the parameter \<open>cmp\<close>.
\<close>

definition equality_comparable_with ::
  "(elem_type \<Rightarrow> elem_type \<Rightarrow> bool) \<Rightarrow> elem_type \<Rightarrow> elem_type \<Rightarrow> bool" where
  "equality_comparable_with cmp a b =
     (a \<noteq> Unsupported \<and> b \<noteq> Unsupported \<and> ((LiteralChar a \<and> LiteralChar b) \<or> cmp a b))"

text \<open>
  The implicit conversion of an element of type \<open>from\<close> assigned to a slot of type \<open>to\<close>
  (\<^verbatim>\<open>*(d++) = *(s++)\<close>, \<^verbatim>\<open>_data[i] = other._data[i]\<close>). Between two different
  element types it is the parameter \<open>conv\<close>, a conversion of the language that may change
  the value (a wide character narrowed to \<^verbatim>\<open>char\<close>); within one type nothing changes.
\<close>

definition convert :: "(elem_type \<Rightarrow> elem_type \<Rightarrow> 'a \<Rightarrow> 'a) \<Rightarrow> elem_type \<Rightarrow> elem_type \<Rightarrow> 'a \<Rightarrow> 'a" where
  "convert conv from to x = (if from = to then x else conv from to x)"

text \<open>
  The built-in \<^verbatim>\<open>lhs[i] == rhs[i]\<close> on elements of the types \<open>t\<close> and \<open>u\<close>. On one
  character type it is the equality of the two codes. For two different types the operands
  are converted to a common type first, and for another element type the comparison is
  that type's own: both are the parameter \<open>eqv\<close>.
\<close>

definition equal_values ::
  "(elem_type \<Rightarrow> elem_type \<Rightarrow> 'a \<Rightarrow> 'a \<Rightarrow> bool) \<Rightarrow> elem_type \<Rightarrow> elem_type \<Rightarrow> 'a \<Rightarrow> 'a \<Rightarrow> bool" where
  "equal_values eqv t u x y = (if t = u \<and> LiteralChar t then x = y else eqv t u x y)"

subsection \<open>Construction\<close>

text \<open>
  \<^verbatim>\<open>constexpr literal_t() noexcept = default\<close>: every slot is value-initialised.
  The deduction guide for no argument gives \<^verbatim>\<open>literal_t<Unsupported, 0>\<close>.
\<close>

definition literal_default :: "elem_type \<Rightarrow> nat \<Rightarrow> 'a::zero literal_t" where
  "literal_default T N = \<lparr>value_type = T, ArraySize = N, data = replicate (Suc N) 0\<rparr>"

definition literal_ctad_default :: "'a::zero literal_t" where
  "literal_ctad_default = literal_default Unsupported 0"

text \<open>
  \<^verbatim>\<open>literal_t(const value_type& c)\<close> stores \<open>c\<close> in slot 0; the deduction guide
  for one argument of type \<open>T\<close> gives \<^verbatim>\<open>literal_t<T, 0>\<close>.
\<close>

definition literal_scalar :: "elem_type \<Rightarrow> nat \<Rightarrow> 'a::zero \<Rightarrow> 'a literal_t" where
  "literal_scalar T N c = \<lparr>value_type = T, ArraySize = N, data = (replicate (Suc N) 0)[0 := c]\<rparr>"

definition literal_ctad_scalar :: "elem_type \<Rightarrow> 'a::zero \<Rightarrow> 'a literal_t" where
  "literal_ctad_scalar T c = literal_scalar T 0 c"

text \<open>
  The loop \<^verbatim>\<open>for (size_t i = 0; i < M; i++) dst[i] = src[off + i];\<close> shared by the
  constructors, the array assignment and \<^verbatim>\<open>substr\<close>.
\<close>

definition copy_elems :: "'a list \<Rightarrow> 'a list \<Rightarrow> nat \<Rightarrow> nat \<Rightarrow> 'a list" where
  "copy_elems dst src off M = fold (\<lambda>i d. d[i := src ! (off + i)]) [0..<M] dst"

text \<open>
  The initialisation \<^verbatim>\<open>literal_t<T, N> result {other}\<close> from another instance.
  An operand of the very type under construction is copied, slot by slot, by the implicit
  copy constructor, which is preferred to any template. Otherwise the only constructor
  that takes an instance is
  \<^verbatim>\<open>template<size_t M> requires (M <= N) literal_t(const literal_t<char, M>& other)\<close>:
  it copies \<open>M\<close> slots, each converted from \<^verbatim>\<open>char\<close> to \<open>T\<close>, and writes a zero
  into slot \<open>M\<close>. Its parameter type names \<^verbatim>\<open>char\<close>, whatever the element type of
  the instance under construction; for an operand of positive capacity and of another
  element type, or of a larger capacity, no constructor is viable and the initialisation
  does not compile (\<open>None\<close>). (An operand of capacity 0 may also convert to its element and
  reach the scalar constructor; no operation below initialises from such an operand, and
  \<open>None\<close> then only says that neither of the two constructors here applies.)
\<close>

definition literal_widen ::
  "(elem_type \<Rightarrow> elem_type \<Rightarrow> 'a \<Rightarrow> 'a) \<Rightarrow> elem_type \<Rightarrow> nat \<Rightarrow> 'a::zero literal_t \<Rightarrow> 'a literal_t option" where
  "literal_widen conv T N other =
     (let M = ArraySize other in
      if value_type other = T \<and> M = N then Some other
      else if value_type other = Char \<and> M \<le> N
      then Some \<lparr>value_type = T, ArraySize = N,
                 data = (copy_elems (replicate (Suc N) 0)
                           (map (convert conv Char T) (data other)) 0 M)[M := 0]\<rparr>
      else None)"

text \<open>
  \<^verbatim>\<open>template<size_t M> requires (M <= N + 1) literal_t(const value_type(&array)[M])\<close>:
  copies the \<open>M\<close> elements of the array, its last one included, and writes nothing else.
\<close>

definition literal_array :: "elem_type \<Rightarrow> nat \<Rightarrow> 'a::zero list \<Rightarrow> 'a literal_t option" where
  "literal_array T N array =
     (let M = length array in
      if M \<le> N + 1
      then Some \<lparr>value_type = T, ArraySize = N,
                 data = copy_elems (replicate (Suc N) 0) array 0 M\<rparr>
      else None)"

text \<open>The deduction guide for an array of \<open>N\<close> elements picks the capacity \<open>bit_ceil N\<close>.\<close>

definition literal_ctad_array :: "elem_type \<Rightarrow> 'a::zero list \<Rightarrow> 'a literal_t option" where
  "literal_ctad_array T array = literal_array T (bit_ceil (length array)) array"

text \<open>
  The assignment \<^verbatim>\<open>s = array\<close>. For an array of exactly \<open>N\<close> elements it is
  \<^verbatim>\<open>literal_t& operator = (const value_type(&array)[N])\<close>, which overwrites the slots
  \<open>0..N-1\<close> and leaves slot \<open>N\<close> alone. An array of another length, up to \<open>N + 1\<close>,
  is first converted to an instance by the array constructor, and the implicit assignment
  then replaces the whole storage. A longer array does not compile (\<open>None\<close>).
\<close>

definition assign_array :: "'a::zero literal_t \<Rightarrow> 'a list \<Rightarrow> 'a literal_t option" where
  "assign_array s array =
     (if length array = ArraySize s
      then Some (s\<lparr>data := copy_elems (data s) array 0 (ArraySize s)\<rparr>)
      else literal_array (value_type s) (ArraySize s) array)"

subsection \<open>Encapsulation and access\<close>

text \<open>
  The scan of \<^verbatim>\<open>size()\<close>:
  \<^verbatim>\<open>while (ptr != ptrEnd and *ptr) ++ptr; return ptr - _data.data();\<close>
  The list is the range from \<open>ptr\<close> up to \<open>ptrEnd\<close>, which is \<open>N\<close> slots after the start.
\<close>

fun scan :: "'a::zero list \<Rightarrow> nat" where
  "scan [] = 0"
| "scan (c # cs) = (if c \<noteq> 0 then Suc (scan cs) else 0)"

definition size_lit :: "'a::zero literal_t \<Rightarrow> nat" where
  "size_lit s =
     (if 0 < ArraySize s \<and> \<not> Undefined s then scan (take (ArraySize s) (data s)) else 0)"

definition empty_lit :: "'a::zero literal_t \<Rightarrow> bool" where
  "empty_lit s =
     (if 0 < ArraySize s \<and> \<not> Undefined s then ArraySize s = 0 \<or> data s ! 0 = 0 else True)"

text \<open>
  \<^verbatim>\<open>operator []\<close>. With \<^verbatim>\<open>LANGULUS_OPTION_SAFE_MODE\<close> (\<open>safe\<close>) an index
  at or beyond \<^verbatim>\<open>size()\<close> throws \<^verbatim>\<open>std::range_error\<close>; without it the
  array is indexed unchecked, which is undefined behaviour beyond its last slot. For
  \<open>N = 0\<close> the index is ignored and slot 0 is returned.
\<close>

datatype error = range_error | undefined_behaviour

definition subscript :: "bool \<Rightarrow> 'a::zero literal_t \<Rightarrow> nat \<Rightarrow> error + 'a" where
  "subscript safe s n =
     (if 0 < ArraySize s
      then (if safe \<and> size_lit s \<le> n then Inl range_error
            else if n < length (data s) then Inr (data s ! n)
            else Inl undefined_behaviour)
      else Inr (data s ! 0))"

text \<open>
  \<^verbatim>\<open>operator view_type() const requires (N > 0)\<close> returns
  \<^verbatim>\<open>{data(), size()}\<close>: the populated prefix of the storage.
\<close>

definition sv :: "'a::zero literal_t \<Rightarrow> 'a list" where
  "sv s = take (size_lit s) (data s)"

subsection \<open>Substring\<close>

definition substr :: "'a::zero literal_t \<Rightarrow> nat \<Rightarrow> nat \<Rightarrow> 'a literal_t" where
  "substr self pos count =
     (let result = literal_default (value_type self) (ArraySize self);
          s = size_lit self
      in if pos \<ge> s then result
         else let count = (if count > s - pos then s - pos else count)
              in result\<lparr>data := (copy_elems (data result) (data self) pos count)[count := 0]\<rparr>)"

subsection \<open>Truncating append and concatenation\<close>

text \<open>
  The loop of both \<^verbatim>\<open>operator +=\<close>:
  \<^verbatim>\<open>while (d != data() + ArraySize and s != sEnd) *(d++) = *(s++);\<close>
  The list is the source range from \<open>s\<close> up to \<open>sEnd\<close>; \<open>d\<close> and \<open>e\<close> are the indices
  of the write position and of the slot \<open>ArraySize\<close>.
\<close>

fun append_loop :: "'a list \<Rightarrow> nat \<Rightarrow> nat \<Rightarrow> 'a list \<Rightarrow> 'a list" where
  "append_loop dst d e [] = dst"
| "append_loop dst d e (c # cs) = (if d \<noteq> e then append_loop (dst[d := c]) (Suc d) e cs else dst)"

text \<open>
  The body that both operators share: \<^verbatim>\<open>auto d = data() + size();\<close> and the loop
  over the source elements, given here as they are stored.
\<close>

definition append_elems :: "'a::zero literal_t \<Rightarrow> 'a list \<Rightarrow> 'a literal_t" where
  "append_elems self src =
     self\<lparr>data := append_loop (data self) (size_lit self) (ArraySize self) src\<rparr>"

text \<open>
  \<^verbatim>\<open>operator += (const CT::LiteralString auto& rhs)\<close>: the source range is
  \<^verbatim>\<open>rhs.data()\<close> up to \<^verbatim>\<open>rhs.data() + rhs.size() + 1\<close>, the content and
  the slot after it; each element read is converted from the element type of \<open>rhs\<close> to
  that of the receiver when it is stored. Here the operand is an object other than the
  receiver; the call \<^verbatim>\<open>s += s\<close> follows below.
\<close>

definition operator_plus_eq ::
  "(elem_type \<Rightarrow> elem_type \<Rightarrow> 'a \<Rightarrow> 'a) \<Rightarrow> 'a::zero literal_t \<Rightarrow> 'a literal_t \<Rightarrow> 'a literal_t" where
  "operator_plus_eq conv self rhs =
     append_elems self
       (map (convert conv (value_type rhs) (value_type self)) (take (size_lit rhs + 1) (data rhs)))"

text \<open>
  \<^verbatim>\<open>template<CT::LiteralChar C, size_t M> operator += (const C(&rhs)[M])\<close>: the
  source range is the whole array, of any character type \<open>C\<close>; each element is converted
  from \<open>C\<close> to the element type of the receiver when it is stored.
\<close>

definition operator_plus_eq_array ::
  "(elem_type \<Rightarrow> elem_type \<Rightarrow> 'a \<Rightarrow> 'a) \<Rightarrow> 'a::zero literal_t \<Rightarrow> elem_type \<Rightarrow> 'a list \<Rightarrow> 'a literal_t" where
  "operator_plus_eq_array conv self C rhs =
     append_elems self (map (convert conv C (value_type self)) rhs)"

text \<open>
  The same loop when the operand is the receiver itself (\<^verbatim>\<open>s += s\<close>): the source
  pointer then reads the storage that the loop is writing, and no conversion takes place.
  \<open>s\<close> is the index of the read position and the last argument counts the source slots
  still to be read.
\<close>

fun self_append_loop :: "'a list \<Rightarrow> nat \<Rightarrow> nat \<Rightarrow> nat \<Rightarrow> nat \<Rightarrow> 'a list" where
  "self_append_loop dst d e s 0 = dst"
| "self_append_loop dst d e s (Suc n) =
     (if d \<noteq> e then self_append_loop (dst[d := dst ! s]) (Suc d) e (Suc s) n else dst)"

definition operator_plus_eq_self :: "'a::zero literal_t \<Rightarrow> 'a literal_t" where
  "operator_plus_eq_self self =
     self\<lparr>data := self_append_loop (data self) (size_lit self) (ArraySize self) 0 (size_lit self + 1)\<rparr>"

text \<open>
  \<^verbatim>\<open>operator + (const LHS& lhs, const RHS& rhs)\<close> for two string literals:
  \<^verbatim>\<open>typename LHS::template Resized<LHS::ArraySize + RHS::ArraySize> result {lhs};
  result += rhs; return result;\<close>
  The result has the element type of \<open>lhs\<close> and a larger capacity, so the initialisation
  of \<open>result\<close> from \<open>lhs\<close> can only go through the widening constructor.
\<close>

definition operator_plus ::
  "(elem_type \<Rightarrow> elem_type \<Rightarrow> 'a \<Rightarrow> 'a) \<Rightarrow> 'a::zero literal_t \<Rightarrow> 'a literal_t \<Rightarrow> 'a literal_t option" where
  "operator_plus conv lhs rhs =
     (if LiteralString lhs \<and> LiteralString rhs
      then (case literal_widen conv (value_type lhs) (Resized (ArraySize lhs + ArraySize rhs)) lhs of
              None \<Rightarrow> None
            | Some result \<Rightarrow> Some (operator_plus_eq conv result rhs))
      else None)"

subsection \<open>Equality\<close>

text \<open>
  The loop of the string-string branch of \<^verbatim>\<open>operator ==\<close>:
  \<^verbatim>\<open>for (size_t i = 0; i < lhs.size(); ++i) if (lhs[i] != rhs[i]) return false;\<close>
\<close>

function eq_loop ::
  "bool \<Rightarrow> (elem_type \<Rightarrow> elem_type \<Rightarrow> 'a \<Rightarrow> 'a \<Rightarrow> bool) \<Rightarrow> 'a::zero literal_t \<Rightarrow> 'a literal_t \<Rightarrow> nat
   \<Rightarrow> error + bool" where
  "eq_loop safe eqv lhs rhs i =
     (if i < size_lit lhs
      then (case subscript safe lhs i of
              Inl e \<Rightarrow> Inl e
            | Inr a \<Rightarrow> (case subscript safe rhs i of
                          Inl e \<Rightarrow> Inl e
                        | Inr b \<Rightarrow> if \<not> equal_values eqv (value_type lhs) (value_type rhs) a b
                                  then Inr False else eq_loop safe eqv lhs rhs (Suc i)))
      else Inr True)"
  by pat_completeness auto
termination
  by (relation "measure (\<lambda>(safe, eqv, lhs, rhs, i). size_lit lhs - i)") auto

declare eq_loop.simps [simp del]

text \<open>
  \<^verbatim>\<open>a and b\<close> on two results that may throw: \<open>b\<close> is evaluated only when \<open>a\<close> is true.
\<close>

definition and_then :: "error + bool \<Rightarrow> error + bool \<Rightarrow> error + bool" where
  "and_then a b = (case a of Inl e \<Rightarrow> Inl e | Inr x \<Rightarrow> if x then b else Inr False)"

definition or_else :: "error + bool \<Rightarrow> error + bool \<Rightarrow> error + bool" where
  "or_else a b = (case a of Inl e \<Rightarrow> Inl e | Inr x \<Rightarrow> if x then Inr True else b)"

text \<open>\<^verbatim>\<open>lhs[0] == rhs[0]\<close> on two accesses that may throw.\<close>

definition elems_equal ::
  "(elem_type \<Rightarrow> elem_type \<Rightarrow> 'a \<Rightarrow> 'a \<Rightarrow> bool) \<Rightarrow> elem_type \<Rightarrow> elem_type \<Rightarrow> error + 'a \<Rightarrow> error + 'a
   \<Rightarrow> error + bool" where
  "elems_equal eqv t u a b =
     (case a of Inl e \<Rightarrow> Inl e
      | Inr x \<Rightarrow> (case b of Inl e \<Rightarrow> Inl e | Inr y \<Rightarrow> Inr (equal_values eqv t u x y)))"

text \<open>
  \<^verbatim>\<open>template<CT::Literal LHS, CT::Literal RHS> operator == (const LHS&, const RHS&)\<close>,
  branch by branch in the order of the source.
\<close>

definition operator_eq ::
  "bool \<Rightarrow> (elem_type \<Rightarrow> elem_type \<Rightarrow> bool) \<Rightarrow> (elem_type \<Rightarrow> elem_type \<Rightarrow> 'a \<Rightarrow> 'a \<Rightarrow> bool)
   \<Rightarrow> 'a::zero literal_t \<Rightarrow> 'a literal_t \<Rightarrow> error + bool" where
  "operator_eq safe cmp eqv lhs rhs =
     (if LiteralString lhs \<and> LiteralString rhs then
        (if size_lit lhs \<noteq> size_lit rhs then Inr False else eq_loop safe eqv lhs rhs 0)
      else if LiteralString lhs then
        (if LiteralUndefined rhs then Inr (empty_lit lhs)
         else if equality_comparable_with cmp (value_type lhs) (value_type rhs) then
           or_else (Inr (empty_lit lhs \<and> empty_lit rhs))
             (and_then (Inr (size_lit lhs = 1))
                (elems_equal eqv (value_type lhs) (value_type rhs)
                   (subscript safe lhs 0) (subscript safe rhs 0)))
         else Inr False)
      else if LiteralString rhs then
        (if LiteralUndefined lhs then Inr (empty_lit rhs)
         else if equality_comparable_with cmp (value_type lhs) (value_type rhs) then
           or_else (Inr (empty_lit lhs \<and> empty_lit rhs))
             (and_then (Inr (size_lit rhs = 1))
                (elems_equal eqv (value_type lhs) (value_type rhs)
                   (subscript safe lhs 0) (subscript safe rhs 0)))
         else Inr False)
      else if equality_comparable_with cmp (value_type lhs) (value_type rhs) then
        elems_equal eqv (value_type lhs) (value_type rhs) (subscript safe lhs 0) (subscript safe rhs 0)
      else Inr (LiteralUndefined lhs \<and> LiteralUndefined rhs))"

subsection \<open>The storage invariant\<close>

text \<open>
  The invariant as the specification words it: \<^verbatim>\<open>size()\<close> is at most \<open>N\<close> and the
  slot at index \<^verbatim>\<open>size()\<close> holds zero. \<open>terminated\<close> says that the last slot, the
  one at index \<open>N\<close> that no scan and no append reaches, holds zero.
\<close>

definition storage_invariant :: "'a::zero literal_t \<Rightarrow> bool" where
  "storage_invariant s = (size_lit s \<le> ArraySize s \<and> data s ! size_lit s = 0)"

definition terminated :: "'a::zero literal_t \<Rightarrow> bool" where
  "terminated s = (data s ! ArraySize s = 0)"

subsection \<open>Search\<close>

text \<open>\<^verbatim>\<open>static constexpr size_t npos = view_type::npos\<close>, the largest 64-bit value.\<close>

definition npos :: nat where
  "npos = 2 ^ 64 - 1"

text \<open>
  The six search operations of \<^verbatim>\<open>std::basic_string_view\<close>, to which the members
  delegate. They belong to the standard library; each is written after its definition in
  the C++ standard: the lowest, or the highest, position within the bounds given by \<open>pos\<close>
  at which the operand matches, or one of its elements occurs, or none of them does, and
  \<open>npos\<close> if there is no such position.
\<close>

datatype search = Find | Rfind | Find_first_of | Find_last_of | Find_first_not_of | Find_last_not_of

definition lowest :: "(nat \<Rightarrow> bool) \<Rightarrow> nat list \<Rightarrow> nat" where
  "lowest P xs = (case filter P xs of [] \<Rightarrow> npos | x # _ \<Rightarrow> x)"

definition highest :: "(nat \<Rightarrow> bool) \<Rightarrow> nat list \<Rightarrow> nat" where
  "highest P xs = (case rev (filter P xs) of [] \<Rightarrow> npos | x # _ \<Rightarrow> x)"

definition matches_at :: "'a list \<Rightarrow> 'a list \<Rightarrow> nat \<Rightarrow> bool" where
  "matches_at h v x = (x + length v \<le> length h \<and> take (length v) (drop x h) = v)"

fun sv_search :: "search \<Rightarrow> 'a list \<Rightarrow> 'a list \<Rightarrow> nat \<Rightarrow> nat" where
  "sv_search Find h v pos = lowest (matches_at h v) [pos ..< Suc (length h)]"
| "sv_search Rfind h v pos = highest (matches_at h v) [0 ..< Suc (min pos (length h))]"
| "sv_search Find_first_of h v pos = lowest (\<lambda>x. h ! x \<in> set v) [pos ..< length h]"
| "sv_search Find_last_of h v pos = highest (\<lambda>x. h ! x \<in> set v) [0 ..< min (Suc pos) (length h)]"
| "sv_search Find_first_not_of h v pos = lowest (\<lambda>x. h ! x \<notin> set v) [pos ..< length h]"
| "sv_search Find_last_not_of h v pos = highest (\<lambda>x. h ! x \<notin> set v) [0 ..< min (Suc pos) (length h)]"

text \<open>
  The first overload of each member, here for \<^verbatim>\<open>find\<close>:
  \<^verbatim>\<open>template <size_t M> size_t find(const Resized<M>& str, size_t pos) const\<close> with the
  body \<^verbatim>\<open>if constexpr (M > N) return npos; return sv().find(str.sv(), pos);\<close>
  \<open>M\<close> is the template argument of the call; the operand has the capacity \<open>bit_ceil M\<close>.
\<close>

definition search_Resized :: "search \<Rightarrow> nat \<Rightarrow> 'a::zero literal_t \<Rightarrow> 'a literal_t \<Rightarrow> nat \<Rightarrow> nat" where
  "search_Resized op M self str pos =
     (if M > ArraySize self then npos else sv_search op (sv self) (sv str) pos)"

text \<open>
  The second overload:
  \<^verbatim>\<open>size_t find(const view_type& view, size_t pos) const { return sv().find(view, pos); }\<close>
\<close>

definition search_view :: "search \<Rightarrow> 'a::zero literal_t \<Rightarrow> 'a list \<Rightarrow> nat \<Rightarrow> nat" where
  "search_view op self view pos = sv_search op (sv self) view pos"

text \<open>
  The call \<^verbatim>\<open>self.find(str, pos)\<close> with a string literal as operand and no template
  argument written out. In the parameter type of the first overload \<open>M\<close> occurs only
  inside \<^verbatim>\<open>std::bit_ceil(M)\<close>, where it cannot be deduced, so that overload is not
  viable; the operand converts to \<^verbatim>\<open>view_type\<close> through
  \<^verbatim>\<open>operator view_type\<close>, and the second overload runs.
\<close>

definition search_call :: "search \<Rightarrow> 'a::zero literal_t \<Rightarrow> 'a literal_t \<Rightarrow> nat \<Rightarrow> nat" where
  "search_call op self str pos = search_view op self (sv str) pos"

subsection \<open>Example instances\<close>

text \<open>
  \<^verbatim>\<open>literal_t<char, 4>\<close> holding \<^verbatim>\<open>"abc"\<close> and \<^verbatim>\<open>"abcd"\<close>, and
  \<^verbatim>\<open>literal_t<char, 8>\<close> holding \<^verbatim>\<open>"ab"\<close>, with characters as their codes.
  The comparability of further element types does not matter for them.
\<close>

definition lit_abc :: "nat literal_t" where
  "lit_abc = \<lparr>value_type = Char, ArraySize = 4, data = [97, 98, 99, 0, 0]\<rparr>"

definition lit_abcd :: "nat literal_t" where
  "lit_abcd = \<lparr>value_type = Char, ArraySize = 4, data = [97, 98, 99, 100, 0]\<rparr>"

definition lit_ab8 :: "nat literal_t" where
  "lit_ab8 = \<lparr>value_type = Char, ArraySize = 8, data = [97, 98, 0, 0, 0, 0, 0, 0, 0]\<rparr>"

definition lit_a4 :: "nat literal_t" where
  "lit_a4 = \<lparr>value_type = Char, ArraySize = 4, data = [97, 0, 0, 0, 0]\<rparr>"

definition lit_a :: "nat literal_t" where
  "lit_a = \<lparr>value_type = Char, ArraySize = 2, data = [97, 0, 0]\<rparr>"

definition lit_empty4 :: "nat literal_t" where
  "lit_empty4 = \<lparr>value_type = Char, ArraySize = 4, data = [0, 0, 0, 0, 0]\<rparr>"

definition lit_empty1 :: "nat literal_t" where
  "lit_empty1 = \<lparr>value_type = Char, ArraySize = 1, data = [0, 0]\<rparr>"

text \<open>
  \<^verbatim>\<open>literal_t<wchar_t, 1>\<close> holding the empty wide string, and
  \<^verbatim>\<open>literal_t<char, 4>\<close> built from the five characters \<^verbatim>\<open>{'a','b','c','d','e'}\<close>.
\<close>

definition wlit_empty1 :: "nat literal_t" where
  "wlit_empty1 = \<lparr>value_type = Wchar_t, ArraySize = 1, data = [0, 0]\<rparr>"

definition lit_abcde4 :: "nat literal_t" where
  "lit_abcde4 = \<lparr>value_type = Char, ArraySize = 4, data = [97, 98, 99, 100, 101]\<rparr>"

text \<open>
  \<^verbatim>\<open>literal_t x;\<close> and \<^verbatim>\<open>literal_t v = 'a';\<close> as the deduction guides type
  them, and a value of an element type that has no comparison.
\<close>

definition lit_undefined :: "nat literal_t" where
  "lit_undefined = literal_ctad_default"

definition val_a :: "nat literal_t" where
  "val_a = literal_ctad_scalar Char 97"

definition val_opaque :: "nat literal_t" where
  "val_opaque = literal_ctad_scalar (Other ''Opaque'') 97"

definition no_cmp :: "elem_type \<Rightarrow> elem_type \<Rightarrow> bool" where
  "no_cmp a b = False"

text \<open>
  \<^verbatim>\<open>literal_t<wchar_t, 4>\<close> holding the wide characters \<^verbatim>\<open>{0x100, 0x161, 0x262}\<close>
  and \<^verbatim>\<open>literal_t<wchar_t, 2>\<close> holding \<^verbatim>\<open>{0x161}\<close>.
  For the examples, the conversion to an 8-bit or a 16-bit character type keeps the low
  bits of the code (so \<^verbatim>\<open>0x100\<close> becomes the \<^verbatim>\<open>char\<close> 0 and \<^verbatim>\<open>0x161\<close>
  becomes \<^verbatim>\<open>'a'\<close>), and two codes of different types compare by their values.
\<close>

definition wlit_wide4 :: "nat literal_t" where
  "wlit_wide4 = \<lparr>value_type = Wchar_t, ArraySize = 4, data = [256, 353, 610, 0, 0]\<rparr>"

definition wlit_s2 :: "nat literal_t" where
  "wlit_s2 = \<lparr>value_type = Wchar_t, ArraySize = 2, data = [353, 0, 0]\<rparr>"

definition low_bits :: "elem_type \<Rightarrow> elem_type \<Rightarrow> nat \<Rightarrow> nat" where
  "low_bits from to x =
     (if to = Char \<or> to = Char8_t then x mod 256 else if to = Char16_t then x mod 65536 else x)"

definition same_code :: "elem_type \<Rightarrow> elem_type \<Rightarrow> nat \<Rightarrow> nat \<Rightarrow> bool" where
  "same_code t u x y = (x = y)"

section \<open>Properties of the operations\<close>

subsection \<open>Facts about bucketing\<close>

lemma bit_width_0: "bit_width 0 = 0"
  by (simp add: bit_width.simps)

lemma bit_width_pos: "0 < n \<Longrightarrow> bit_width n = Suc (bit_width (n div 2))"
  by (simp add: bit_width.simps)

lemma bit_width_upper: "n < 2 ^ bit_width n"
proof (induction n rule: bit_width.induct)
  case (1 n)
  show ?case
  proof (cases "n = 0")
    case True
    then show ?thesis by (simp add: bit_width_0)
  next
    case False
    with 1 have "n div 2 < 2 ^ bit_width (n div 2)" by simp
    then have "n < 2 * 2 ^ bit_width (n div 2)" by linarith
    with False show ?thesis by (simp add: bit_width_pos)
  qed
qed

lemma bit_width_lower: "0 < n \<Longrightarrow> 2 ^ (bit_width n - 1) \<le> n"
proof (induction n rule: bit_width.induct)
  case (1 n)
  show ?case
  proof (cases "n div 2 = 0")
    case True
    with 1(2) have "n = 1" by linarith
    then show ?thesis by (simp add: bit_width_pos bit_width_0)
  next
    case False
    with 1 have ih: "2 ^ (bit_width (n div 2) - 1) \<le> n div 2" by simp
    from False have "0 < bit_width (n div 2)" by (simp add: bit_width_pos)
    then have "(2::nat) ^ bit_width (n div 2) = 2 * 2 ^ (bit_width (n div 2) - 1)"
      by (cases "bit_width (n div 2)") simp_all
    with ih have "2 ^ bit_width (n div 2) \<le> n" by linarith
    with 1(2) show ?thesis by (simp add: bit_width_pos)
  qed
qed

lemma bit_ceil_ge: "x \<le> bit_ceil x"
proof (cases "x \<le> 1")
  case True
  then show ?thesis by (simp add: bit_ceil_def)
next
  case False
  have "x - 1 < 2 ^ bit_width (x - 1)" by (rule bit_width_upper)
  with False show ?thesis by (simp add: bit_ceil_def)
qed

lemma bit_ceil_is_power: "\<exists>k. bit_ceil x = 2 ^ k"
proof (cases "x \<le> 1")
  case True
  then have "bit_ceil x = 2 ^ 0" by (simp add: bit_ceil_def)
  then show ?thesis by blast
next
  case False
  then show ?thesis by (auto simp: bit_ceil_def)
qed

lemma bit_ceil_least: "x \<le> 2 ^ k \<Longrightarrow> bit_ceil x \<le> 2 ^ k"
proof (cases "x \<le> 1")
  case True
  then show ?thesis by (simp add: bit_ceil_def)
next
  case False
  assume le: "x \<le> 2 ^ k"
  from False have pos: "0 < x - 1" by simp
  have "(2::nat) ^ (bit_width (x - 1) - 1) \<le> x - 1" by (rule bit_width_lower [OF pos])
  with False le have "(2::nat) ^ (bit_width (x - 1) - 1) < 2 ^ k" by linarith
  then have "bit_width (x - 1) - 1 < k" by simp
  then have "bit_width (x - 1) \<le> k" by linarith
  then have "(2::nat) ^ bit_width (x - 1) \<le> 2 ^ k" by (rule power_increasing) simp
  with False show ?thesis by (simp add: bit_ceil_def)
qed

lemma bit_width_1: "bit_width (Suc 0) = 1"
  by (simp add: bit_width_pos bit_width_0)

lemma bit_width_2: "bit_width 2 = 2"
  by (simp add: bit_width_pos bit_width_1)

lemma bit_width_4: "bit_width 4 = 3"
  by (simp add: bit_width_pos bit_width_2)

subsection \<open>Facts about the scan, the loops and the operations\<close>

lemma scan_le: "scan xs \<le> length xs"
  by (induction xs) auto

lemma scan_nth_nonzero: "i < scan xs \<Longrightarrow> xs ! i \<noteq> 0"
  by (induction xs arbitrary: i) (auto simp: nth_Cons' split: if_splits)

lemma scan_nth_zero: "scan xs < length xs \<Longrightarrow> xs ! scan xs = 0"
  by (induction xs) auto

lemma scan_eqI:
  "k \<le> length xs \<Longrightarrow> (\<And>i. i < k \<Longrightarrow> xs ! i \<noteq> 0) \<Longrightarrow> (k < length xs \<Longrightarrow> xs ! k = 0) \<Longrightarrow> scan xs = k"
proof (induction xs arbitrary: k)
  case Nil
  then show ?case by simp
next
  case (Cons c cs)
  show ?case
  proof (cases k)
    case 0
    with Cons.prems(3) show ?thesis by simp
  next
    case (Suc j)
    with Cons.prems(2) [of 0] have c: "c \<noteq> 0" by simp
    have "scan cs = j"
    proof (rule Cons.IH)
      show "j \<le> length cs" using Cons.prems(1) Suc by simp
      show "cs ! i \<noteq> 0" if "i < j" for i using Cons.prems(2) [of "Suc i"] that Suc by simp
      show "cs ! j = 0" if "j < length cs" using Cons.prems(3) that Suc by simp
    qed
    with c Suc show ?thesis by simp
  qed
qed

lemma copy_elems_Suc:
  "copy_elems dst src off (Suc M) = (copy_elems dst src off M)[M := src ! (off + M)]"
  by (simp add: copy_elems_def)

lemma copy_elems_0: "copy_elems dst src off 0 = dst"
  by (simp add: copy_elems_def)

lemma length_copy_elems: "length (copy_elems dst src off M) = length dst"
  by (induction M) (simp_all add: copy_elems_0 copy_elems_Suc)

lemma nth_copy_elems:
  "i < length dst \<Longrightarrow> copy_elems dst src off M ! i = (if i < M then src ! (off + i) else dst ! i)"
  by (induction M) (auto simp: copy_elems_0 copy_elems_Suc length_copy_elems nth_list_update less_Suc_eq)

lemma length_append_loop: "length (append_loop dst d e src) = length dst"
  by (induction src arbitrary: dst d) auto

lemma nth_append_loop:
  "d \<le> e \<Longrightarrow> e \<le> length dst \<Longrightarrow> append_loop dst d e src ! i =
     (if d \<le> i \<and> i < e \<and> i - d < length src then src ! (i - d) else dst ! i)"
proof (induction src arbitrary: dst d)
  case Nil
  then show ?case by simp
next
  case (Cons c cs)
  show ?case
  proof (cases "d = e")
    case True
    then show ?thesis by auto
  next
    case False
    with Cons.prems have lt: "d < e" "Suc d \<le> e" "e \<le> length (dst[d := c])" by simp_all
    show ?thesis
      using Cons.IH [OF lt(2) lt(3)] False lt Cons.prems
      by (auto simp: nth_list_update nth_Cons' Suc_diff_le)
  qed
qed


lemma size_lit_le: "size_lit s \<le> ArraySize s"
  using scan_le [of "take (ArraySize s) (data s)"] by (simp add: size_lit_def)

lemma size_lit_nonzero: "i < size_lit s \<Longrightarrow> data s ! i \<noteq> 0"
proof -
  assume lt: "i < size_lit s"
  then have str: "0 < ArraySize s \<and> \<not> Undefined s"
    by (auto simp: size_lit_def split: if_splits)
  with lt have "i < scan (take (ArraySize s) (data s))" by (simp add: size_lit_def)
  then have "take (ArraySize s) (data s) ! i \<noteq> 0" by (rule scan_nth_nonzero)
  moreover have "i < ArraySize s" using lt size_lit_le [of s] by linarith
  ultimately show ?thesis by simp
qed

lemma LiteralString_scanned: "LiteralString s \<Longrightarrow> 0 < ArraySize s \<and> \<not> Undefined s"
  by (auto simp: LiteralString_def LiteralChar_def Undefined_def)

lemma size_lit_String:
  "LiteralString s \<Longrightarrow> size_lit s = scan (take (ArraySize s) (data s))"
  using LiteralString_scanned [of s] by (simp add: size_lit_def)

lemma size_lit_zero:
  assumes "LiteralString s" "well_shaped s" "size_lit s < ArraySize s"
  shows "data s ! size_lit s = 0"
proof -
  let ?xs = "take (ArraySize s) (data s)"
  from assms(2) have len: "length ?xs = ArraySize s" by (simp add: well_shaped_def)
  from assms(1) have sz: "size_lit s = scan ?xs" by (rule size_lit_String)
  with assms(3) len have "scan ?xs < length ?xs" by simp
  then have "?xs ! scan ?xs = 0" by (rule scan_nth_zero)
  with sz assms(3) show ?thesis by simp
qed

lemma size_lit_eqI:
  assumes "LiteralString s" "well_shaped s" "k \<le> ArraySize s"
    and nz: "\<And>i. i < k \<Longrightarrow> data s ! i \<noteq> 0"
    and z: "k < ArraySize s \<Longrightarrow> data s ! k = 0"
  shows "size_lit s = k"
proof -
  let ?xs = "take (ArraySize s) (data s)"
  from assms(2) have len: "length ?xs = ArraySize s" by (simp add: well_shaped_def)
  have "scan ?xs = k"
  proof (rule scan_eqI)
    show "k \<le> length ?xs" using len assms(3) by simp
    show "?xs ! i \<noteq> 0" if "i < k" for i using nz [OF that] that assms(3) by simp
    show "?xs ! k = 0" if "k < length ?xs" using z that len by simp
  qed
  with assms(1) show ?thesis by (simp add: size_lit_String)
qed

lemma empty_lit_String:
  assumes "LiteralString s" "well_shaped s"
  shows "empty_lit s = (size_lit s = 0)"
proof -
  from assms(1) have pos: "0 < ArraySize s" "\<not> Undefined s"
    using LiteralString_scanned by blast+
  from assms(2) pos obtain c cs where d: "data s = c # cs"
    by (cases "data s") (simp_all add: well_shaped_def)
  from pos obtain n where n: "ArraySize s = Suc n" by (cases "ArraySize s") simp_all
  show ?thesis using pos d n by (simp add: empty_lit_def size_lit_def)
qed

lemma subscript_in_size:
  assumes "well_shaped s" "n < size_lit s"
  shows "subscript safe s n = Inr (data s ! n)"
proof -
  from assms(2) have "n < ArraySize s" using size_lit_le [of s] by linarith
  with assms show ?thesis by (simp add: subscript_def well_shaped_def)
qed

lemma eq_loop_elementwise:
  assumes "well_shaped lhs" "well_shaped rhs" "size_lit lhs = size_lit rhs"
  shows "eq_loop safe eqv lhs rhs i =
           Inr (\<forall>j. i \<le> j \<and> j < size_lit lhs \<longrightarrow>
                  equal_values eqv (value_type lhs) (value_type rhs) (data lhs ! j) (data rhs ! j))"
  using assms
proof (induction safe eqv lhs rhs i rule: eq_loop.induct)
  case (1 safe eqv lhs rhs i)
  let ?eq = "\<lambda>j. equal_values eqv (value_type lhs) (value_type rhs) (data lhs ! j) (data rhs ! j)"
  show ?case
  proof (cases "i < size_lit lhs")
    case False
    then show ?thesis by (auto simp: eq_loop.simps [of safe eqv lhs rhs i])
  next
    case True
    have l: "subscript safe lhs i = Inr (data lhs ! i)"
      using "1.prems"(1) True by (rule subscript_in_size)
    have r: "subscript safe rhs i = Inr (data rhs ! i)"
      using "1.prems"(2,3) True by (simp add: subscript_in_size)
    show ?thesis
    proof (cases "?eq i")
      case False
      with True l r show ?thesis
        by (auto simp: eq_loop.simps [of safe eqv lhs rhs i])
    next
      case same: True
      have "eq_loop safe eqv lhs rhs (Suc i) = Inr (\<forall>j. Suc i \<le> j \<and> j < size_lit lhs \<longrightarrow> ?eq j)"
        using "1.IH" [OF True l r] same "1.prems" by simp
      moreover have "(\<forall>j. Suc i \<le> j \<and> j < size_lit lhs \<longrightarrow> ?eq j)
          = (\<forall>j. i \<le> j \<and> j < size_lit lhs \<longrightarrow> ?eq j)"
        using same by (metis Suc_leI le_neq_implies_less Suc_leD)
      ultimately show ?thesis using True l r same
        by (simp add: eq_loop.simps [of safe eqv lhs rhs i])
    qed
  qed
qed

lemma literal_default_simps:
  "value_type (literal_default T N :: 'a::zero literal_t) = T"
  "ArraySize (literal_default T N :: 'a::zero literal_t) = N"
  "data (literal_default T N :: 'a::zero literal_t) = replicate (Suc N) 0"
  by (simp_all add: literal_default_def)

lemma well_shaped_default: "well_shaped (literal_default T N)"
  by (simp add: well_shaped_def literal_default_def)

lemma size_lit_default: "size_lit (literal_default T N :: 'a::zero literal_t) = 0"
proof (cases N)
  case 0
  then show ?thesis by (simp add: size_lit_def literal_default_def)
next
  case (Suc n)
  then show ?thesis by (simp add: size_lit_def literal_default_def)
qed

lemma substr_beyond: "size_lit s \<le> pos \<Longrightarrow> substr s pos c = literal_default (value_type s) (ArraySize s)"
  by (simp add: substr_def Let_def)

lemma substr_fields:
  "value_type (substr s pos c) = value_type s" "ArraySize (substr s pos c) = ArraySize s"
  "length (data (substr s pos c)) = Suc (ArraySize s)"
  by (simp_all add: substr_def Let_def literal_default_def length_copy_elems)

lemma substr_within_data:
  assumes "pos < size_lit s"
  shows "data (substr s pos c) =
    (copy_elems (replicate (Suc (ArraySize s)) 0) (data s) pos (min c (size_lit s - pos)))
      [min c (size_lit s - pos) := 0]"
proof -
  have "(if c > size_lit s - pos then size_lit s - pos else c) = min c (size_lit s - pos)"
    by (simp add: min_def)
  with assms show ?thesis by (simp add: substr_def Let_def literal_default_def)
qed

lemma nth_copy_elems_terminated:
  "k < length dst \<Longrightarrow> i < length dst \<Longrightarrow>
   (copy_elems dst src off k)[k := z] ! i =
     (if i < k then src ! (off + i) else if i = k then z else dst ! i)"
  by (auto simp: nth_list_update length_copy_elems nth_copy_elems)

lemma nth_zeros: "i \<le> N \<Longrightarrow> replicate (Suc N) (0::'a::zero) ! i = 0"
  by (simp del: replicate_Suc)

lemma nth_substr:
  assumes "pos < size_lit s" "i \<le> ArraySize s"
  shows "data (substr s pos c) ! i = (if i < min c (size_lit s - pos) then data s ! (pos + i) else 0)"
proof -
  let ?k = "min c (size_lit s - pos)"
  let ?z = "replicate (Suc (ArraySize s)) (0::'a)"
  have len: "i < length ?z" using assms(2) by simp
  have k: "?k < length ?z" using size_lit_le [of s] by simp
  have z: "?z ! i = 0" using assms(2) by (rule nth_zeros)
  have "data (substr s pos c) ! i = (copy_elems ?z (data s) pos ?k)[?k := 0] ! i"
    by (simp only: substr_within_data [OF assms(1)])
  also have "\<dots> = (if i < ?k then data s ! (pos + i) else if i = ?k then 0 else ?z ! i)"
    by (rule nth_copy_elems_terminated [OF k len])
  also have "\<dots> = (if i < ?k then data s ! (pos + i) else 0)"
    by (simp only: z if_cancel)
  finally show ?thesis .
qed

lemma size_substr:
  assumes "LiteralString s" "well_shaped s"
  shows "size_lit (substr s pos c) = min c (size_lit s - pos)"
proof (cases "pos < size_lit s")
  case False
  then show ?thesis by (simp add: substr_beyond size_lit_default)
next
  case True
  let ?k = "min c (size_lit s - pos)"
  have k: "?k \<le> ArraySize s" using size_lit_le [of s] by linarith
  show ?thesis
  proof (rule size_lit_eqI)
    show "LiteralString (substr s pos c)" using assms(1) by (simp add: LiteralString_def substr_fields)
    show "well_shaped (substr s pos c)" by (simp add: well_shaped_def substr_fields)
    show "?k \<le> ArraySize (substr s pos c)" using k by (simp add: substr_fields)
    show "data (substr s pos c) ! i \<noteq> 0" if "i < ?k" for i
    proof -
      have "pos + i < size_lit s" using that by linarith
      then have "data s ! (pos + i) \<noteq> 0" by (rule size_lit_nonzero)
      moreover have "i \<le> ArraySize s" using that k by linarith
      then have "data (substr s pos c) ! i = data s ! (pos + i)"
        using nth_substr [OF True, of i c] that by simp
      ultimately show ?thesis by simp
    qed
    show "data (substr s pos c) ! ?k = 0" using nth_substr [OF True k, of c] by simp
  qed
qed

lemma LiteralString_lit_abc: "LiteralString lit_abc \<and> well_shaped lit_abc"
  by (simp add: lit_abc_def LiteralString_def LiteralChar_def well_shaped_def)

lemma size_lit_abc: "size_lit lit_abc = 3"
  by (simp add: lit_abc_def size_lit_def Undefined_def)

lemma not_String_Undefined: "LiteralUndefined s \<Longrightarrow> \<not> LiteralString s"
  by (simp add: LiteralUndefined_def LiteralString_def LiteralChar_def)

lemma not_String_Value: "LiteralValue s \<Longrightarrow> \<not> LiteralString s"
  by (simp add: LiteralValue_def LiteralString_def)

lemma not_comparable_Unsupported:
  "\<not> equality_comparable_with cmp Unsupported t" "\<not> equality_comparable_with cmp t Unsupported"
  by (simp_all add: equality_comparable_with_def)

lemma literal_ctad_default_Undefined: "LiteralUndefined literal_ctad_default"
  by (simp add: literal_ctad_default_def LiteralUndefined_def literal_default_def)

lemma empty_lit_Value: "LiteralValue v \<Longrightarrow> empty_lit v"
  by (simp add: LiteralValue_def empty_lit_def)

lemma subscript_Value: "LiteralValue v \<Longrightarrow> subscript safe v n = Inr (data v ! 0)"
  by (simp add: LiteralValue_def subscript_def)

lemma append_loop_eq:
  "d \<le> e \<Longrightarrow> e \<le> length dst \<Longrightarrow>
   append_loop dst d e src = take d dst @ take (e - d) src @ drop (d + min (e - d) (length src)) dst"
proof (induction src arbitrary: dst d)
  case Nil
  then show ?case by simp
next
  case (Cons c cs)
  show ?case
  proof (cases "d = e")
    case True
    then show ?thesis by simp
  next
    case False
    with Cons.prems have lt: "d < e" "Suc d \<le> e" "e \<le> length (dst[d := c])" "d < length dst"
      by simp_all
    obtain m where m: "e - d = Suc m" using lt(1) by (cases "e - d") simp_all
    then have m': "e - Suc d = m" by simp
    have "append_loop (dst[d := c]) (Suc d) e cs =
            take (Suc d) (dst[d := c]) @ take m cs @ drop (Suc d + min m (length cs)) (dst[d := c])"
      using Cons.IH [OF lt(2) lt(3)] m' by simp
    moreover have "take (Suc d) (dst[d := c]) = take d dst @ [c]"
      using lt(4) by (simp add: take_Suc_conv_app_nth)
    moreover have "drop (Suc d + min m (length cs)) (dst[d := c]) = drop (Suc d + min m (length cs)) dst"
      by simp
    ultimately show ?thesis using False m by simp
  qed
qed

lemma well_shaped_append_elems: "well_shaped s \<Longrightarrow> well_shaped (append_elems s src)"
  by (simp add: well_shaped_def append_elems_def length_append_loop)

lemma append_elems_fields:
  "value_type (append_elems s src) = value_type s" "ArraySize (append_elems s src) = ArraySize s"
  by (simp_all add: append_elems_def)

lemma nth_append_elems:
  assumes "well_shaped s"
  shows "data (append_elems s arr) ! i =
     (if size_lit s \<le> i \<and> i < ArraySize s \<and> i - size_lit s < length arr
      then arr ! (i - size_lit s) else data s ! i)"
proof -
  have "size_lit s \<le> ArraySize s" by (rule size_lit_le)
  moreover have "ArraySize s \<le> length (data s)" using assms by (simp add: well_shaped_def)
  ultimately show ?thesis by (simp add: append_elems_def nth_append_loop)
qed

lemma source_range:
  assumes "well_shaped rhs"
  shows "length (map f (take (size_lit rhs + 1) (data rhs))) = size_lit rhs + 1"
    and "j \<le> size_lit rhs \<Longrightarrow> map f (take (size_lit rhs + 1) (data rhs)) ! j = f (data rhs ! j)"
proof -
  have "size_lit rhs \<le> ArraySize rhs" by (rule size_lit_le)
  then show len: "length (map f (take (size_lit rhs + 1) (data rhs))) = size_lit rhs + 1"
    using assms by (simp add: well_shaped_def)
  show "map f (take (size_lit rhs + 1) (data rhs)) ! j = f (data rhs ! j)" if "j \<le> size_lit rhs"
    using that len by simp
qed

lemma convert_same: "convert conv t t = (\<lambda>x. x)"
  by (rule ext) (simp add: convert_def)

lemma size_after_full_append:
  assumes "LiteralString s" "well_shaped s"
    and "ArraySize s - size_lit s \<le> length arr"
    and nz: "\<And>j. j < ArraySize s - size_lit s \<Longrightarrow> arr ! j \<noteq> 0"
  shows "size_lit (append_elems s arr) = ArraySize s"
proof -
  let ?r = "append_elems s arr"
  have le: "size_lit s \<le> ArraySize s" by (rule size_lit_le)
  have "size_lit ?r = ArraySize s"
  proof (rule size_lit_eqI)
    show "LiteralString ?r" using assms(1) by (simp add: LiteralString_def append_elems_fields)
    show "well_shaped ?r" using assms(2) by (rule well_shaped_append_elems)
    show "ArraySize s \<le> ArraySize ?r" by (simp add: append_elems_fields)
    show "data ?r ! i \<noteq> 0" if "i < ArraySize s" for i
    proof (cases "i < size_lit s")
      case True
      then have "data s ! i \<noteq> 0" by (rule size_lit_nonzero)
      with True show ?thesis by (simp add: nth_append_elems [OF assms(2)])
    next
      case False
      then have j: "i - size_lit s < ArraySize s - size_lit s" using that by linarith
      then have "i - size_lit s < length arr" using assms(3) by linarith
      moreover have "arr ! (i - size_lit s) \<noteq> 0" using j by (rule nz)
      ultimately show ?thesis using False that
        by (simp add: nth_append_elems [OF assms(2)])
    qed
    show "data ?r ! ArraySize s = 0" if "ArraySize s < ArraySize ?r"
      using that by (simp add: append_elems_fields)
  qed
  then show ?thesis .
qed

lemma size_after_short_append:
  assumes "LiteralString s" "well_shaped s"
    and "k < length arr" "size_lit s + k < ArraySize s"
    and nz: "\<And>j. j < k \<Longrightarrow> arr ! j \<noteq> 0" and z: "arr ! k = 0"
  shows "size_lit (append_elems s arr) = size_lit s + k"
proof -
  let ?r = "append_elems s arr"
  show ?thesis
  proof (rule size_lit_eqI)
    show "LiteralString ?r" using assms(1) by (simp add: LiteralString_def append_elems_fields)
    show "well_shaped ?r" using assms(2) by (rule well_shaped_append_elems)
    show "size_lit s + k \<le> ArraySize ?r" using assms(4) by (simp add: append_elems_fields)
    show "data ?r ! i \<noteq> 0" if "i < size_lit s + k" for i
    proof (cases "i < size_lit s")
      case True
      then have "data s ! i \<noteq> 0" by (rule size_lit_nonzero)
      with True show ?thesis by (simp add: nth_append_elems [OF assms(2)])
    next
      case False
      then have j: "i - size_lit s < k" using that by linarith
      then have "i - size_lit s < length arr" using assms(3) by linarith
      moreover have "arr ! (i - size_lit s) \<noteq> 0" using j by (rule nz)
      moreover have "i < ArraySize s" using that assms(4) by linarith
      ultimately show ?thesis using False
        by (simp add: nth_append_elems [OF assms(2)])
    qed
    show "data ?r ! (size_lit s + k) = 0"
      using assms(3,4) z by (simp add: nth_append_elems [OF assms(2)])
  qed
qed


lemma take_min_length: "take (min n (length xs)) xs = take n xs"
  by (cases "n \<le> length xs") (simp_all add: min_def)

lemma data_append_elems:
  assumes "well_shaped s"
  shows "data (append_elems s arr) =
     take (size_lit s) (data s) @ take (ArraySize s - size_lit s) arr
       @ drop (size_lit s + min (ArraySize s - size_lit s) (length arr)) (data s)"
proof -
  have "size_lit s \<le> ArraySize s" by (rule size_lit_le)
  moreover have "ArraySize s \<le> length (data s)" using assms by (simp add: well_shaped_def)
  ultimately show ?thesis by (simp add: append_elems_def append_loop_eq)
qed

lemma literal_widen_copy:
  "value_type other = T \<Longrightarrow> ArraySize other = N \<Longrightarrow> literal_widen conv T N other = Some other"
  by (simp add: literal_widen_def)

lemma literal_widen_template:
  "\<not> (value_type other = T \<and> ArraySize other = N) \<Longrightarrow> value_type other = Char \<Longrightarrow>
   ArraySize other \<le> N \<Longrightarrow>
   literal_widen conv T N other = Some \<lparr>value_type = T, ArraySize = N,
     data = (copy_elems (replicate (Suc N) 0) (map (convert conv Char T) (data other)) 0
               (ArraySize other))[ArraySize other := 0]\<rparr>"
  by (auto simp add: literal_widen_def Let_def simp del: replicate_Suc)

lemma literal_widen_not_char:
  "value_type other \<noteq> Char \<Longrightarrow> ArraySize other \<noteq> N \<Longrightarrow> literal_widen conv T N other = None"
  by (simp add: literal_widen_def)

lemma literal_widen_fields:
  assumes "literal_widen conv T N other = Some r" "\<not> (value_type other = T \<and> ArraySize other = N)"
  shows "value_type r = T" "ArraySize r = N" "well_shaped r"
    and "i \<le> N \<Longrightarrow> well_shaped other \<Longrightarrow>
         data r ! i = (if i < ArraySize other then convert conv Char T (data other ! i) else 0)"
    and "data r ! N = 0"
proof -
  from assms have c: "value_type other = Char" "ArraySize other \<le> N"
    by (auto simp: literal_widen_def Let_def split: if_splits)
  let ?z = "replicate (Suc N) (0::'a)"
  let ?src = "map (convert conv Char T) (data other)"
  from assms have r: "r = \<lparr>value_type = T, ArraySize = N,
     data = (copy_elems ?z ?src 0 (ArraySize other))[ArraySize other := 0]\<rparr>"
    by (simp only: literal_widen_template [OF assms(2) c] option.inject)
  show "value_type r = T" "ArraySize r = N" by (simp_all add: r)
  show "well_shaped r" by (simp add: r well_shaped_def length_copy_elems)
  have k: "ArraySize other < length ?z" using c(2) by simp
  have nth: "data r ! i = (if i < ArraySize other then ?src ! i else 0)" if "i \<le> N" for i
  proof -
    have len: "i < length ?z" using that by simp
    have z: "?z ! i = 0" using that by (rule nth_zeros)
    have "data r ! i = (copy_elems ?z ?src 0 (ArraySize other))[ArraySize other := 0] ! i"
      by (simp add: r)
    also have "\<dots> = (if i < ArraySize other then ?src ! (0 + i)
                      else if i = ArraySize other then 0 else ?z ! i)"
      by (rule nth_copy_elems_terminated [OF k len])
    also have "\<dots> = (if i < ArraySize other then ?src ! i else 0)"
      by (simp only: z if_cancel add_0)
    finally show ?thesis .
  qed
  show "data r ! i = (if i < ArraySize other then convert conv Char T (data other ! i) else 0)"
    if "i \<le> N" "well_shaped other"
  proof (cases "i < ArraySize other")
    case True
    then have "i < length (data other)" using that(2) by (simp add: well_shaped_def)
    then have "?src ! i = convert conv Char T (data other ! i)" by simp
    with True nth [OF that(1)] show ?thesis by simp
  next
    case False
    with nth [OF that(1)] show ?thesis by simp
  qed
  show "data r ! N = 0" using nth [of N] c(2) by simp
qed

lemma size_literal_widen:
  assumes "literal_widen conv Char N other = Some r" "ArraySize other < N"
    and "LiteralString other" "well_shaped other"
  shows "size_lit r = size_lit other"
proof -
  from assms(2) have ne: "\<not> (value_type other = Char \<and> ArraySize other = N)" by simp
  note f = literal_widen_fields [OF assms(1) ne]
  have nth: "data r ! i = (if i < ArraySize other then data other ! i else 0)" if "i \<le> N" for i
    using f(4) [OF that assms(4)] by (simp add: convert_def)
  have le: "size_lit other \<le> ArraySize other" by (rule size_lit_le)
  show ?thesis
  proof (rule size_lit_eqI)
    show "LiteralString r" using assms(2) by (simp add: LiteralString_def LiteralChar_def f)
    show "well_shaped r" by (rule f)
    show "size_lit other \<le> ArraySize r" using le assms(2) by (simp add: f)
    show "data r ! i \<noteq> 0" if "i < size_lit other" for i
    proof -
      have "data other ! i \<noteq> 0" using that by (rule size_lit_nonzero)
      moreover have "i < ArraySize other" "i \<le> N" using that le assms(2) by linarith+
      ultimately show ?thesis by (simp add: nth)
    qed
    show "data r ! size_lit other = 0"
    proof (cases "size_lit other < ArraySize other")
      case True
      then have "data other ! size_lit other = 0" using assms(3,4) by (simp add: size_lit_zero)
      moreover have "size_lit other \<le> N" using le assms(2) by linarith
      ultimately show ?thesis using True by (simp add: nth)
    next
      case False
      moreover have "size_lit other \<le> N" using le assms(2) by linarith
      ultimately show ?thesis by (simp add: nth)
    qed
  qed
qed

lemma Resized_ge: "M \<le> Resized M"
  by (simp add: Resized_def bit_ceil_ge)

lemma terminated_default: "terminated (literal_default T N)"
  using nth_zeros [of N N] by (simp add: terminated_def literal_default_simps del: replicate_Suc)

lemma literal_scalar_facts:
  "well_shaped (literal_scalar T N c)"
  "0 < N \<Longrightarrow> terminated (literal_scalar T N c)"
  "size_lit (literal_scalar T 0 c) = 0"
  "data (literal_scalar T 0 c) ! 0 = c"
  using nth_zeros [of N N, where 'a = 'a]
  by (simp_all add: literal_scalar_def well_shaped_def terminated_def size_lit_def
      del: replicate_Suc)

lemma terminated_literal_widen:
  assumes "literal_widen conv T N other = Some r" "well_shaped other"
    and "ArraySize other < N \<or> terminated other"
  shows "well_shaped r \<and> terminated r"
proof (cases "value_type other = T \<and> ArraySize other = N")
  case True
  then have "r = other" using assms(1) by (simp add: literal_widen_def)
  with True assms(2,3) show ?thesis by simp
next
  case False
  show ?thesis
    using literal_widen_fields(2,3,5) [OF assms(1) False] by (simp add: terminated_def)
qed

lemma literal_array_facts:
  assumes "literal_array T N arr = Some r"
  shows "value_type r = T" "ArraySize r = N" "well_shaped r"
    and "i \<le> N \<Longrightarrow> data r ! i = (if i < length arr then arr ! i else 0)"
proof -
  from assms have c: "length arr \<le> N + 1"
    by (auto simp: literal_array_def Let_def split: if_splits)
  with assms have r: "r = \<lparr>value_type = T, ArraySize = N,
      data = copy_elems (replicate (Suc N) 0) arr 0 (length arr)\<rparr>"
    by (simp add: literal_array_def Let_def del: replicate_Suc)
  show "value_type r = T" "ArraySize r = N" by (simp_all add: r)
  show "well_shaped r" by (simp add: r well_shaped_def length_copy_elems)
  show "data r ! i = (if i < length arr then arr ! i else 0)" if "i \<le> N"
  proof -
    let ?z = "replicate (Suc N) (0::'a)"
    have len: "i < length ?z" using that by simp
    have z: "?z ! i = 0" using that by (rule nth_zeros)
    have "data r ! i = copy_elems ?z arr 0 (length arr) ! i" by (simp add: r)
    also have "\<dots> = (if i < length arr then arr ! (0 + i) else ?z ! i)"
      by (rule nth_copy_elems [OF len])
    also have "\<dots> = (if i < length arr then arr ! i else 0)"
      by (simp only: z add_0)
    finally show ?thesis .
  qed
qed

lemma terminated_literal_array:
  assumes "literal_array T N arr = Some r" "length arr \<le> N \<or> last arr = 0"
  shows "terminated r"
proof (cases "length arr \<le> N")
  case True
  then show ?thesis
    using literal_array_facts(2) [OF assms(1)] literal_array_facts(4) [OF assms(1), of N]
    by (simp add: terminated_def)
next
  case False
  from assms(1) have "length arr \<le> N + 1"
    by (auto simp: literal_array_def Let_def split: if_splits)
  with False have len: "length arr = Suc N" by linarith
  then have "arr \<noteq> []" by auto
  then have "last arr = arr ! N" using len by (simp add: last_conv_nth)
  with False assms(2) have "arr ! N = 0" by simp
  then show ?thesis
    using literal_array_facts(2) [OF assms(1)] literal_array_facts(4) [OF assms(1), of N] len
    by (simp add: terminated_def)
qed

lemma literal_ctad_array_terminated:
  "\<exists>r. literal_ctad_array T arr = Some r \<and> well_shaped r \<and> terminated r"
proof -
  have le: "length arr \<le> bit_ceil (length arr)" by (rule bit_ceil_ge)
  then obtain r where r: "literal_array T (bit_ceil (length arr)) arr = Some r"
    by (simp add: literal_array_def Let_def)
  have "terminated r" using r le by (simp add: terminated_literal_array)
  with r literal_array_facts(3) [OF r] show ?thesis by (simp add: literal_ctad_array_def)
qed

lemma assign_array_facts:
  assumes "assign_array s arr = Some r" "well_shaped s" "terminated s"
    and "length arr \<le> ArraySize s \<or> last arr = 0"
  shows "well_shaped r" "terminated r"
proof -
  have "well_shaped r \<and> terminated r"
  proof (cases "length arr = ArraySize s")
    case True
    with assms(1) have r: "r = s\<lparr>data := copy_elems (data s) arr 0 (ArraySize s)\<rparr>"
      by (simp add: assign_array_def)
    have "ArraySize s < length (data s)" using assms(2) by (simp add: well_shaped_def)
    then have "terminated r" using assms(3) by (simp add: r terminated_def nth_copy_elems)
    moreover have "well_shaped r" using assms(2) by (simp add: r well_shaped_def length_copy_elems)
    ultimately show ?thesis by simp
  next
    case False
    with assms(1) have r: "literal_array (value_type s) (ArraySize s) arr = Some r"
      by (simp add: assign_array_def)
    show ?thesis
      using literal_array_facts(3) [OF r] terminated_literal_array [OF r assms(4)] by simp
  qed
  then show "well_shaped r" "terminated r" by simp_all
qed

lemma terminated_append_elems:
  assumes "well_shaped s" "terminated s"
  shows "terminated (append_elems s src)"
  using assms(2) by (simp add: terminated_def append_elems_fields nth_append_elems [OF assms(1)])

lemma terminated_substr: "terminated (substr s pos c)"
proof (cases "pos < size_lit s")
  case False
  then show ?thesis by (simp add: substr_beyond terminated_default)
next
  case True
  have "\<not> ArraySize s < min c (size_lit s - pos)" using size_lit_le [of s] by linarith
  then have "data (substr s pos c) ! ArraySize s = 0"
    by (simp only: nth_substr [OF True order_refl] if_False)
  then show ?thesis by (simp add: terminated_def substr_fields)
qed

lemma terminated_storage_invariant:
  assumes "LiteralString s" "well_shaped s" "terminated s"
  shows "storage_invariant s"
proof (cases "size_lit s < ArraySize s")
  case True
  then show ?thesis using size_lit_zero [OF assms(1,2)] by (simp add: storage_invariant_def)
next
  case False
  then have "size_lit s = ArraySize s" using size_lit_le [of s] by linarith
  then show ?thesis using assms(3) by (simp add: storage_invariant_def terminated_def)
qed

lemma length_self_append_loop: "length (self_append_loop dst d e s n) = length dst"
  by (induction n arbitrary: dst d s) auto

lemma nth_self_append_loop:
  "s < d \<Longrightarrow> d \<le> e \<Longrightarrow> e \<le> length dst \<Longrightarrow>
   self_append_loop dst d e s n ! i =
     (if d \<le> i \<and> i < e \<and> i - d < n then self_append_loop dst d e s n ! (i - (d - s)) else dst ! i)"
proof (induction n arbitrary: dst d s i)
  case 0
  then show ?case by simp
next
  case (Suc n)
  show ?case
  proof (cases "d = e")
    case True
    then show ?thesis by auto
  next
    case False
    let ?dst = "dst[d := dst ! s]"
    let ?r = "self_append_loop ?dst (Suc d) e (Suc s) n"
    from False Suc.prems have lt: "Suc s < Suc d" "Suc d \<le> e" "e \<le> length ?dst" "d < length dst"
      by simp_all
    note ih = Suc.IH [OF lt(1,2,3)]
    have r: "self_append_loop dst d e s (Suc n) = ?r" using False by simp
    have low: "?r ! j = dst ! j" if "j < d" for j
      using ih [of j] that by simp
    show ?thesis
    proof (cases "i = d")
      case True
      have "?r ! d = ?dst ! d" using ih [of d] by simp
      also have "\<dots> = dst ! s" using lt(4) by simp
      also have "\<dots> = ?r ! s" using low [of s] Suc.prems(1) by simp
      finally show ?thesis using True False lt Suc.prems by (simp add: r)
    next
      case ne: False
      show ?thesis
      proof (cases "d \<le> i \<and> i < e \<and> i - d < Suc n")
        case True
        with ne have c: "Suc d \<le> i \<and> i < e \<and> i - Suc d < n" by linarith
        have "?r ! i = ?r ! (i - (Suc d - Suc s))"
          by (simp only: ih [of i] c if_True simp_thms)
        with True show ?thesis by (simp add: r)
      next
        case out: False
        then have c: "\<not> (Suc d \<le> i \<and> i < e \<and> i - Suc d < n)" by linarith
        have "?r ! i = ?dst ! i"
          by (simp only: ih [of i] c if_False)
        then have "?r ! i = dst ! i" using ne by simp
        then show ?thesis unfolding r using out by (simp only: if_False)
      qed
    qed
  qed
qed

lemma nth_operator_plus_eq_self:
  assumes "well_shaped s" "0 < size_lit s"
  shows "data (operator_plus_eq_self s) ! i =
     (if size_lit s \<le> i \<and> i < ArraySize s \<and> i - size_lit s < size_lit s + 1
      then data (operator_plus_eq_self s) ! (i - size_lit s) else data s ! i)"
proof -
  have "size_lit s \<le> ArraySize s" by (rule size_lit_le)
  moreover have "ArraySize s \<le> length (data s)" using assms(1) by (simp add: well_shaped_def)
  ultimately show ?thesis
    using nth_self_append_loop [OF assms(2), of "ArraySize s" "data s" "size_lit s + 1" i]
    by (simp add: operator_plus_eq_self_def)
qed

lemma operator_plus_eq_self_fields:
  "value_type (operator_plus_eq_self s) = value_type s"
  "ArraySize (operator_plus_eq_self s) = ArraySize s"
  "length (data (operator_plus_eq_self s)) = length (data s)"
  by (simp_all add: operator_plus_eq_self_def length_self_append_loop)

lemma size_after_full_self_append:
  assumes "LiteralString s" "well_shaped s" "ArraySize s - size_lit s \<le> size_lit s"
  shows "size_lit (operator_plus_eq_self s) = ArraySize s"
proof -
  let ?r = "operator_plus_eq_self s"
  from assms(1) have "0 < ArraySize s" by (simp add: LiteralString_def)
  with assms(3) have pos: "0 < size_lit s" by linarith
  have nz: "data ?r ! i \<noteq> 0" if "i < ArraySize s" for i
    using that
  proof (induction i rule: less_induct)
    case (less i)
    show ?case
    proof (cases "i < size_lit s")
      case True
      then have "data s ! i \<noteq> 0" by (rule size_lit_nonzero)
      with True show ?thesis by (simp add: nth_operator_plus_eq_self [OF assms(2) pos, of i])
    next
      case False
      have c: "size_lit s \<le> i \<and> i < ArraySize s \<and> i - size_lit s < size_lit s + 1"
        using False less.prems assms(3) by linarith
      have "data ?r ! i = data ?r ! (i - size_lit s)"
        by (simp only: nth_operator_plus_eq_self [OF assms(2) pos, of i] c if_True simp_thms)
      moreover have "data ?r ! (i - size_lit s) \<noteq> 0"
        using less.IH [of "i - size_lit s"] pos False less.prems by simp
      ultimately show ?thesis by simp
    qed
  qed
  show ?thesis
  proof (rule size_lit_eqI)
    show "LiteralString ?r" using assms(1) by (simp add: LiteralString_def operator_plus_eq_self_fields)
    show "well_shaped ?r" using assms(2) by (simp add: well_shaped_def operator_plus_eq_self_fields)
    show "ArraySize s \<le> ArraySize ?r" by (simp add: operator_plus_eq_self_fields)
    show "data ?r ! i \<noteq> 0" if "i < ArraySize s" for i using that by (rule nz)
    show "data ?r ! ArraySize s = 0" if "ArraySize s < ArraySize ?r"
      using that by (simp add: operator_plus_eq_self_fields)
  qed
qed

lemma operator_plus_eq_self_empty:
  assumes "size_lit s = 0"
  shows "data (operator_plus_eq_self s) = data s"
  using assms by (simp add: operator_plus_eq_self_def)

lemma nth_operator_plus_eq_self_outside:
  assumes "well_shaped s"
    and "\<not> (size_lit s \<le> i \<and> i < size_lit s + min (ArraySize s - size_lit s) (size_lit s + 1))"
  shows "data (operator_plus_eq_self s) ! i = data s ! i"
proof (cases "size_lit s = 0")
  case True
  then show ?thesis by (simp add: operator_plus_eq_self_empty)
next
  case False
  then have pos: "0 < size_lit s" by simp
  have c: "\<not> (size_lit s \<le> i \<and> i < ArraySize s \<and> i - size_lit s < size_lit s + 1)"
    using assms(2) size_lit_le [of s] by (simp add: min_def split: if_splits) linarith+
  show ?thesis by (simp only: nth_operator_plus_eq_self [OF assms(1) pos, of i] c if_False)
qed

lemma nth_operator_plus_eq_self_content:
  assumes "well_shaped s"
    and "size_lit s \<le> i" "i < size_lit s + min (ArraySize s - size_lit s) (size_lit s)"
  shows "data (operator_plus_eq_self s) ! i = data s ! (i - size_lit s)"
proof -
  from assms(2,3) have pos: "0 < size_lit s" by linarith
  have c: "size_lit s \<le> i \<and> i < ArraySize s \<and> i - size_lit s < size_lit s + 1"
    using assms(2,3) by linarith
  have "data (operator_plus_eq_self s) ! i = data (operator_plus_eq_self s) ! (i - size_lit s)"
    by (simp only: nth_operator_plus_eq_self [OF assms(1) pos, of i] c if_True simp_thms)
  also have "\<dots> = data s ! (i - size_lit s)"
  proof (rule nth_operator_plus_eq_self_outside [OF assms(1)])
    show "\<not> (size_lit s \<le> i - size_lit s
        \<and> i - size_lit s < size_lit s + min (ArraySize s - size_lit s) (size_lit s + 1))"
      using assms(2,3) by linarith
  qed
  finally show ?thesis .
qed

lemma npos_value: "npos = 18446744073709551615"
  by (simp add: npos_def)

lemma sv_search_clamp:
  "length h \<le> pos \<Longrightarrow> sv_search Rfind h v pos = sv_search Rfind h v (length h)"
  "length h \<le> pos \<Longrightarrow> sv_search Find_last_of h v pos = sv_search Find_last_of h v (length h)"
  "length h \<le> pos \<Longrightarrow> sv_search Find_last_not_of h v pos = sv_search Find_last_not_of h v (length h)"
  by (simp_all add: min_absorb2)

lemma search_Resized_larger:
  "ArraySize self < M \<Longrightarrow> search_Resized op M self str pos = npos"
  by (simp add: search_Resized_def)

lemma concatenation_char:
  fixes a b :: "'a::zero literal_t"
  assumes "LiteralString a" "well_shaped a" "LiteralString b" "well_shaped b"
    and "value_type a = Char" "value_type b = Char" "storage_invariant b"
  shows "\<exists>r. operator_plus conv a b = Some r
           \<and> value_type r = value_type a
           \<and> ArraySize r = Resized (ArraySize a + ArraySize b)
           \<and> well_shaped r
           \<and> size_lit r = size_lit a + size_lit b
           \<and> size_lit r \<le> ArraySize r
           \<and> sv r = sv a @ sv b"
proof -
  let ?N = "Resized (ArraySize a + ArraySize b)"
  have cap: "ArraySize a + ArraySize b \<le> ?N" by (rule Resized_ge)
  then have aN: "ArraySize a \<le> ?N" by linarith
  have posb: "0 < ArraySize b" using assms(3) by (simp add: LiteralString_def)
  with cap have lt: "ArraySize a < ?N" by linarith
  then have ne: "\<not> (value_type a = Char \<and> ArraySize a = ?N)" by simp
  obtain w where w0: "literal_widen conv Char ?N a = Some w"
    using literal_widen_template [OF ne assms(5) aN] by blast
  then have w: "literal_widen conv (value_type a) ?N a = Some w" by (simp only: assms(5))
  have f: "value_type w = Char" "ArraySize w = ?N" "well_shaped w"
    "\<And>i. i \<le> ?N \<Longrightarrow> data w ! i = (if i < ArraySize a then data a ! i else 0)"
    using literal_widen_fields(1,2,3) [OF w0 ne] literal_widen_fields(4) [OF w0 ne _ assms(2)]
    by (simp_all add: convert_def)
  have posN: "0 < ?N" using assms(1) cap by (simp add: LiteralString_def)
  have wstr: "LiteralString w" using posN by (simp add: LiteralString_def LiteralChar_def f)
  have wsz: "size_lit w = size_lit a" using w0 lt assms(1,2) by (rule size_literal_widen)
  let ?src = "take (size_lit b + 1) (data b)"
  let ?r = "operator_plus_eq conv w b"
  have plus: "operator_plus conv a b = Some ?r" using assms(1,3) w by (simp add: operator_plus_def)
  have r_arr: "?r = append_elems w ?src"
    by (simp add: operator_plus_eq_def f(1) assms(6) convert_same)
  have la: "size_lit a \<le> ArraySize a" and lb: "size_lit b \<le> ArraySize b" by (rule size_lit_le)+
  have len: "length ?src = size_lit b + 1"
    using source_range(1) [OF assms(4), of "\<lambda>x. x"] by simp
  have nz: "?src ! j \<noteq> 0" if "j < size_lit b" for j
    using that size_lit_nonzero [OF that] by simp
  have z: "?src ! size_lit b = 0" using assms(7) by (simp add: storage_invariant_def)
  have sz: "size_lit ?r = size_lit a + size_lit b"
  proof (cases "size_lit a + size_lit b < ?N")
    case True
    have "size_lit (append_elems w ?src) = size_lit w + size_lit b"
    proof (rule size_after_short_append [OF wstr f(3)])
      show "size_lit b < length ?src" using len by simp
      show "size_lit w + size_lit b < ArraySize w" using True by (simp add: wsz f)
      show "?src ! j \<noteq> 0" if "j < size_lit b" for j using that by (rule nz)
      show "?src ! size_lit b = 0" by (rule z)
    qed
    then show ?thesis by (simp add: r_arr wsz)
  next
    case False
    with la lb cap have full: "size_lit a + size_lit b = ?N" by linarith
    have "size_lit (append_elems w ?src) = ArraySize w"
    proof (rule size_after_full_append [OF wstr f(3)])
      show "ArraySize w - size_lit w \<le> length ?src" using full len by (simp add: wsz f)
      show "?src ! j \<noteq> 0" if "j < ArraySize w - size_lit w" for j
      proof -
        have "j < size_lit b" using that full by (simp add: wsz f)
        then show ?thesis by (rule nz)
      qed
    qed
    then show ?thesis using full by (simp add: r_arr f)
  qed
  have shape: "value_type ?r = value_type a" "ArraySize ?r = ?N" "well_shaped ?r"
    using f assms(5) by (simp_all add: r_arr append_elems_fields well_shaped_append_elems)
  have room: "size_lit b \<le> ?N - size_lit a" using la lb cap by linarith
  have lr: "length (sv ?r) = size_lit a + size_lit b"
    using shape(3) la lb cap by (simp add: sv_def sz well_shaped_def shape(2))
  have lab: "length (sv a @ sv b) = size_lit a + size_lit b"
    using la lb assms(2,4) by (simp add: sv_def well_shaped_def)
  have content: "sv ?r = sv a @ sv b"
  proof (rule nth_equalityI)
    show "length (sv ?r) = length (sv a @ sv b)" by (simp only: lr lab)
    fix i assume "i < length (sv ?r)"
    then have i: "i < size_lit a + size_lit b" by (simp only: lr)
    have iN: "i < ?N" using i la lb cap by linarith
    have "sv ?r ! i = data ?r ! i"
      using i by (simp add: sv_def sz)
    then have svr: "sv ?r ! i = data (append_elems w ?src) ! i"
      by (simp only: r_arr)
    show "sv ?r ! i = (sv a @ sv b) ! i"
    proof (cases "i < size_lit a")
      case True
      then have "data w ! i = data a ! i" using la iN by (simp add: f(4))
      with True have "data (append_elems w ?src) ! i = data a ! i"
        by (simp add: nth_append_elems [OF f(3)] wsz)
      moreover have "(sv a @ sv b) ! i = data a ! i"
        using True la assms(2) by (simp add: nth_append sv_def well_shaped_def)
      ultimately show ?thesis by (simp only: svr)
    next
      case False
      then have j: "i - size_lit a < size_lit b" using i by linarith
      with False iN len have "data (append_elems w ?src) ! i = data b ! (i - size_lit a)"
        by (simp add: nth_append_elems [OF f(3)] wsz f(2))
      moreover have "(sv a @ sv b) ! i = data b ! (i - size_lit a)"
        using False j la lb assms(2,4) by (simp add: nth_append sv_def well_shaped_def)
      ultimately show ?thesis by (simp only: svr)
    qed
  qed
  from plus shape sz content show ?thesis
    using size_lit_le [of ?r] by blast
qed

lemma operator_plus_not_char:
  "LiteralString a \<Longrightarrow> LiteralString b \<Longrightarrow> value_type a \<noteq> Char \<Longrightarrow> operator_plus conv a b = None"
proof -
  assume a: "LiteralString a" "LiteralString b" "value_type a \<noteq> Char"
  have "ArraySize a + ArraySize b \<le> Resized (ArraySize a + ArraySize b)" by (rule Resized_ge)
  moreover have "0 < ArraySize b" using a(2) by (simp add: LiteralString_def)
  ultimately have "ArraySize a \<noteq> Resized (ArraySize a + ArraySize b)" by linarith
  then show ?thesis using a by (simp add: operator_plus_def literal_widen_not_char)
qed

section \<open>Claims\<close>

subsection \<open>C1: capacity bucketing\<close>

text \<open>
  C1, as stated: bucketing maps a source length 0 to the capacity 0. The code passes the
  length to \<^verbatim>\<open>std::bit_ceil\<close>, which yields 1 for 0: \<^verbatim>\<open>Resized<0>\<close> is an
  instance of capacity 1.
\<close>

theorem Resized_zero_is_one: "Resized 0 = 1 \<and> Resized 0 \<noteq> 0"
  by (simp add: Resized_def bit_ceil_def)

text \<open>
  C1, amended: for every source length \<open>M\<close>, zero included, the bucketed capacity is the
  smallest power of two greater than or equal to \<open>M\<close>; so Resize(0)=1, Resize(1)=1,
  Resize(2)=2, Resize(3)=4 and Resize(5)=8.
\<close>

theorem Resized_smallest_power_of_two:
  "(\<exists>k. Resized M = 2 ^ k) \<and> M \<le> Resized M \<and> (\<forall>k. M \<le> 2 ^ k \<longrightarrow> Resized M \<le> 2 ^ k)
   \<and> Resized 0 = 1 \<and> Resized 1 = 1 \<and> Resized 2 = 2 \<and> Resized 3 = 4 \<and> Resized 5 = 8"
proof -
  have "Resized 3 = 4" "Resized 5 = 8" "Resized 2 = 2"
    by (simp_all add: Resized_def bit_ceil_def bit_width_1 bit_width_2 bit_width_4)
  moreover have "Resized 0 = 1" "Resized 1 = 1"
    by (simp_all add: Resized_def bit_ceil_def)
  ultimately show ?thesis
    unfolding Resized_def using bit_ceil_is_power [of M] bit_ceil_ge [of M] bit_ceil_least [of M]
    by simp
qed

text \<open>The bound at \<open>M = 3\<close> and the power \<open>2\<^sup>2\<close>.\<close>

theorem Resized_smallest_power_of_two_witness:
  "(3::nat) \<le> 2 ^ 2 \<and> Resized 3 \<le> 2 ^ 2 \<and> Resized 3 = 4"
  using Resized_smallest_power_of_two [of 3] by simp

subsection \<open>C2: concatenation\<close>

text \<open>
  C2: \<open>a + b\<close> is to yield a new instance for every two string literals. For a left operand
  of an element type other than \<^verbatim>\<open>char\<close> it does not compile: the result is initialised
  from the left operand, and the only constructor that takes an instance of a smaller
  capacity takes a \<^verbatim>\<open>literal_t<char, M>\<close>. Evaluated on two empty \<^verbatim>\<open>wchar_t\<close>
  literals of capacity 1 there is no result, while the same expression on two empty
  \<^verbatim>\<open>char\<close> literals yields the empty literal.
\<close>

theorem concatenation_wide_left_operand:
  "LiteralString wlit_empty1 \<and> well_shaped wlit_empty1 \<and> storage_invariant wlit_empty1
   \<and> operator_plus low_bits wlit_empty1 wlit_empty1 = None
   \<and> LiteralString lit_empty1 \<and> well_shaped lit_empty1 \<and> storage_invariant lit_empty1
   \<and> map_option size_lit (operator_plus low_bits lit_empty1 lit_empty1) = Some 0"
  by code_simp

subsection \<open>C3: truncating append\<close>

text \<open>
  C3, as stated: when the source is longer than the remaining capacity, the size after
  \<^verbatim>\<open>+=\<close> equals the capacity. For the receiver \<^verbatim>\<open>"a"\<close> of capacity 4 and the
  five-element array \<^verbatim>\<open>"b\0cd"\<close> the three free slots are filled with
  \<^verbatim>\<open>'b'\<close>, zero and \<^verbatim>\<open>'c'\<close>, and the size is 2. For the same receiver and the
  wide literal \<^verbatim>\<open>{0x100, 0x161, 0x262}\<close> the three free slots are filled with the
  narrowed characters zero, \<^verbatim>\<open>'a'\<close> and \<^verbatim>\<open>'b'\<close>, and the size is 1.
\<close>

theorem append_stores_a_zero:
  "LiteralString lit_a4 \<and> well_shaped lit_a4
   \<and> ArraySize lit_a4 - size_lit lit_a4 < length [98, 0, 99, 100, 0 :: nat]
   \<and> data (operator_plus_eq_array low_bits lit_a4 Char [98, 0, 99, 100, 0]) = [97, 98, 0, 99, 0]
   \<and> size_lit (operator_plus_eq_array low_bits lit_a4 Char [98, 0, 99, 100, 0]) = 2
   \<and> size_lit (operator_plus_eq_array low_bits lit_a4 Char [98, 0, 99, 100, 0]) \<noteq> ArraySize lit_a4
   \<and> LiteralString wlit_wide4 \<and> well_shaped wlit_wide4
   \<and> ArraySize lit_a4 - size_lit lit_a4 \<le> size_lit wlit_wide4
   \<and> data (operator_plus_eq low_bits lit_a4 wlit_wide4) = [97, 0, 97, 98, 0]
   \<and> size_lit (operator_plus_eq low_bits lit_a4 wlit_wide4) = 1
   \<and> size_lit (operator_plus_eq low_bits lit_a4 wlit_wide4) \<noteq> ArraySize lit_a4"
  by code_simp

text \<open>
  C3, amended: for a string literal as receiver, \<^verbatim>\<open>+=\<close> copies source elements, each
  converted to the element type of the receiver, to the slots from index \<^verbatim>\<open>size()\<close>
  on, as many as the smaller of the remaining capacity \<open>N - size()\<close> and the length of the
  source, and leaves every other slot as it was; the source of a string literal is its
  content and the slot after it, the source of a raw array is the whole array. The
  capacity and the number of slots never change. When the source is longer than the
  remaining capacity, exactly \<open>N - size()\<close> elements are copied and the rest is dropped;
  the size then equals the capacity whenever the elements stored are not zero: for every
  string literal of the receiver's element type as source, the receiver itself included,
  and for a string literal of another character type or a raw array whose first
  \<open>N - size()\<close> elements are stored as non-zero values. When the source is the receiver
  itself, its content is read from the slots below the write position, and only the slot
  after the content is read after the loop has written it.
\<close>

theorem truncating_append:
  fixes s rhs :: "'a::zero literal_t" and arr :: "'a list"
  assumes "LiteralString s" "well_shaped s"
  shows "(LiteralString rhs \<and> well_shaped rhs \<longrightarrow>
            data (operator_plus_eq conv s rhs) =
              take (size_lit s) (data s)
              @ map (convert conv (value_type rhs) (value_type s))
                  (take (min (ArraySize s - size_lit s) (size_lit rhs + 1)) (data rhs))
              @ drop (size_lit s + min (ArraySize s - size_lit s) (size_lit rhs + 1)) (data s)
            \<and> ArraySize (operator_plus_eq conv s rhs) = ArraySize s
            \<and> well_shaped (operator_plus_eq conv s rhs)
            \<and> (ArraySize s - size_lit s \<le> size_lit rhs \<longrightarrow>
                 data (operator_plus_eq conv s rhs) =
                   take (size_lit s) (data s)
                   @ map (convert conv (value_type rhs) (value_type s))
                       (take (ArraySize s - size_lit s) (data rhs))
                   @ drop (ArraySize s) (data s))
            \<and> (ArraySize s - size_lit s \<le> size_lit rhs \<and> value_type rhs = value_type s \<longrightarrow>
                 size_lit (operator_plus_eq conv s rhs) = ArraySize s)
            \<and> (ArraySize s - size_lit s \<le> size_lit rhs
                 \<and> (\<forall>j < ArraySize s - size_lit s.
                       convert conv (value_type rhs) (value_type s) (data rhs ! j) \<noteq> 0) \<longrightarrow>
                 size_lit (operator_plus_eq conv s rhs) = ArraySize s))
         \<and> data (operator_plus_eq_array conv s C arr) =
              take (size_lit s) (data s)
              @ map (convert conv C (value_type s)) (take (min (ArraySize s - size_lit s) (length arr)) arr)
              @ drop (size_lit s + min (ArraySize s - size_lit s) (length arr)) (data s)
         \<and> ArraySize (operator_plus_eq_array conv s C arr) = ArraySize s
         \<and> well_shaped (operator_plus_eq_array conv s C arr)
         \<and> ArraySize (operator_plus_eq_self s) = ArraySize s
         \<and> well_shaped (operator_plus_eq_self s)
         \<and> (\<forall>i. size_lit s \<le> i
                \<and> i < size_lit s + min (ArraySize s - size_lit s) (size_lit s) \<longrightarrow>
              data (operator_plus_eq_self s) ! i = data s ! (i - size_lit s))
         \<and> (\<forall>i. \<not> (size_lit s \<le> i
                   \<and> i < size_lit s + min (ArraySize s - size_lit s) (size_lit s + 1)) \<longrightarrow>
              data (operator_plus_eq_self s) ! i = data s ! i)
         \<and> (ArraySize s - size_lit s \<le> size_lit s \<longrightarrow>
              size_lit (operator_plus_eq_self s) = ArraySize s)
         \<and> (ArraySize s - size_lit s < length arr
              \<and> (\<forall>j < ArraySize s - size_lit s. convert conv C (value_type s) (arr ! j) \<noteq> 0) \<longrightarrow>
              data (operator_plus_eq_array conv s C arr) =
                take (size_lit s) (data s)
                @ map (convert conv C (value_type s)) (take (ArraySize s - size_lit s) arr)
                @ drop (ArraySize s) (data s)
              \<and> size_lit (operator_plus_eq_array conv s C arr) = ArraySize s)"
proof -
  let ?room = "ArraySize s - size_lit s"
  let ?f = "convert conv (value_type rhs) (value_type s)"
  let ?g = "convert conv C (value_type s)"
  have le: "size_lit s \<le> ArraySize s" by (rule size_lit_le)
  have gen_data: "data (append_elems s xs) =
      take (size_lit s) (data s) @ take (min ?room (length xs)) xs
      @ drop (size_lit s + min ?room (length xs)) (data s)" for xs
    by (simp only: data_append_elems [OF assms(2)] take_min_length)
  have gen_trunc: "data (append_elems s xs) =
      take (size_lit s) (data s) @ take ?room xs @ drop (ArraySize s) (data s)"
    if "?room \<le> length xs" for xs
    using that le by (simp add: data_append_elems [OF assms(2)] min_absorb1)
  have gen_size: "size_lit (append_elems s xs) = ArraySize s"
    if "?room \<le> length xs" "\<forall>j < ?room. xs ! j \<noteq> 0" for xs
    using assms that by (simp add: size_after_full_append)
  have lit: "data (operator_plus_eq conv s rhs) =
        take (size_lit s) (data s)
        @ map ?f (take (min ?room (size_lit rhs + 1)) (data rhs))
        @ drop (size_lit s + min ?room (size_lit rhs + 1)) (data s)
      \<and> (?room \<le> size_lit rhs \<longrightarrow>
           data (operator_plus_eq conv s rhs) =
             take (size_lit s) (data s) @ map ?f (take ?room (data rhs)) @ drop (ArraySize s) (data s))
      \<and> (?room \<le> size_lit rhs \<and> value_type rhs = value_type s \<longrightarrow>
           size_lit (operator_plus_eq conv s rhs) = ArraySize s)
      \<and> (?room \<le> size_lit rhs \<and> (\<forall>j < ?room. ?f (data rhs ! j) \<noteq> 0) \<longrightarrow>
           size_lit (operator_plus_eq conv s rhs) = ArraySize s)"
    if rhs: "well_shaped rhs"
  proof -
    let ?src = "map ?f (take (size_lit rhs + 1) (data rhs))"
    have op: "operator_plus_eq conv s rhs = append_elems s ?src"
      by (simp add: operator_plus_eq_def)
    have len: "length ?src = size_lit rhs + 1" using rhs by (rule source_range)
    have nth: "?src ! j = ?f (data rhs ! j)" if "j \<le> size_lit rhs" for j
      using rhs that by (rule source_range)
    have tk: "take n ?src = map ?f (take (min n (size_lit rhs + 1)) (data rhs))" for n
      by (simp add: take_map min.commute)
    have d: "data (operator_plus_eq conv s rhs) =
        take (size_lit s) (data s) @ map ?f (take (min ?room (size_lit rhs + 1)) (data rhs))
        @ drop (size_lit s + min ?room (size_lit rhs + 1)) (data s)"
      using gen_data [of ?src] by (simp only: op len tk min.assoc min.idem)
    have t: "data (operator_plus_eq conv s rhs) =
        take (size_lit s) (data s) @ map ?f (take ?room (data rhs)) @ drop (ArraySize s) (data s)"
      if room: "?room \<le> size_lit rhs"
    proof -
      have "?room \<le> length ?src" using room len by linarith
      moreover have "min ?room (size_lit rhs + 1) = ?room" using room by simp
      ultimately show ?thesis using gen_trunc [of ?src] by (simp only: op tk)
    qed
    have z: "size_lit (operator_plus_eq conv s rhs) = ArraySize s"
      if room: "?room \<le> size_lit rhs" and nz: "\<forall>j < ?room. ?f (data rhs ! j) \<noteq> 0"
    proof -
      have "?room \<le> length ?src" using room len by linarith
      moreover have "\<forall>j < ?room. ?src ! j \<noteq> 0"
      proof (intro allI impI)
        fix j assume j: "j < ?room"
        then have "j \<le> size_lit rhs" using room by linarith
        then show "?src ! j \<noteq> 0" using nz j by (simp only: nth) simp
      qed
      ultimately show ?thesis using gen_size [of ?src] by (simp only: op)
    qed
    have same: "size_lit (operator_plus_eq conv s rhs) = ArraySize s"
      if room: "?room \<le> size_lit rhs" and ty: "value_type rhs = value_type s"
    proof (rule z [OF room], intro allI impI)
      fix j assume "j < ?room"
      then have "j < size_lit rhs" using room by linarith
      then have "data rhs ! j \<noteq> 0" by (rule size_lit_nonzero)
      then show "?f (data rhs ! j) \<noteq> 0" by (simp add: ty convert_def)
    qed
    from d t z same show ?thesis by blast
  qed
  have shape: "ArraySize (operator_plus_eq conv s rhs) = ArraySize s"
    "well_shaped (operator_plus_eq conv s rhs)"
    "ArraySize (operator_plus_eq_array conv s C arr) = ArraySize s"
    "well_shaped (operator_plus_eq_array conv s C arr)"
    using assms(2)
    by (simp_all add: operator_plus_eq_def operator_plus_eq_array_def append_elems_fields
        well_shaped_append_elems)
  have arr_data: "data (operator_plus_eq_array conv s C arr) =
      take (size_lit s) (data s) @ map ?g (take (min ?room (length arr)) arr)
      @ drop (size_lit s + min ?room (length arr)) (data s)"
    using gen_data [of "map ?g arr"] by (simp add: operator_plus_eq_array_def take_map)
  have arr_part: "?room < length arr \<and> (\<forall>j < ?room. ?g (arr ! j) \<noteq> 0) \<longrightarrow>
      data (operator_plus_eq_array conv s C arr) =
        take (size_lit s) (data s) @ map ?g (take ?room arr) @ drop (ArraySize s) (data s)
      \<and> size_lit (operator_plus_eq_array conv s C arr) = ArraySize s"
  proof (intro impI, elim conjE)
    assume room: "?room < length arr" and nz: "\<forall>j < ?room. ?g (arr ! j) \<noteq> 0"
    have l: "?room \<le> length (map ?g arr)" using room by simp
    have n: "\<forall>j < ?room. map ?g arr ! j \<noteq> 0" using room nz by simp
    show "data (operator_plus_eq_array conv s C arr) =
        take (size_lit s) (data s) @ map ?g (take ?room arr) @ drop (ArraySize s) (data s)
      \<and> size_lit (operator_plus_eq_array conv s C arr) = ArraySize s"
      using gen_trunc [OF l] gen_size [OF l n] by (simp add: operator_plus_eq_array_def take_map)
  qed
  have self: "ArraySize (operator_plus_eq_self s) = ArraySize s"
    "well_shaped (operator_plus_eq_self s)"
    "ArraySize s - size_lit s \<le> size_lit s \<longrightarrow> size_lit (operator_plus_eq_self s) = ArraySize s"
    using assms by (simp_all add: operator_plus_eq_self_fields well_shaped_def
        size_after_full_self_append)
  have self_content: "\<forall>i. size_lit s \<le> i
        \<and> i < size_lit s + min (ArraySize s - size_lit s) (size_lit s) \<longrightarrow>
      data (operator_plus_eq_self s) ! i = data s ! (i - size_lit s)"
    using nth_operator_plus_eq_self_content [OF assms(2)] by blast
  have self_outside: "\<forall>i. \<not> (size_lit s \<le> i
        \<and> i < size_lit s + min (ArraySize s - size_lit s) (size_lit s + 1)) \<longrightarrow>
      data (operator_plus_eq_self s) ! i = data s ! i"
    using nth_operator_plus_eq_self_outside [OF assms(2)] by blast
  have lit_all: "LiteralString rhs \<and> well_shaped rhs \<longrightarrow>
            data (operator_plus_eq conv s rhs) =
              take (size_lit s) (data s)
              @ map ?f (take (min ?room (size_lit rhs + 1)) (data rhs))
              @ drop (size_lit s + min ?room (size_lit rhs + 1)) (data s)
            \<and> ArraySize (operator_plus_eq conv s rhs) = ArraySize s
            \<and> well_shaped (operator_plus_eq conv s rhs)
            \<and> (?room \<le> size_lit rhs \<longrightarrow>
                 data (operator_plus_eq conv s rhs) =
                   take (size_lit s) (data s) @ map ?f (take ?room (data rhs))
                   @ drop (ArraySize s) (data s))
            \<and> (?room \<le> size_lit rhs \<and> value_type rhs = value_type s \<longrightarrow>
                 size_lit (operator_plus_eq conv s rhs) = ArraySize s)
            \<and> (?room \<le> size_lit rhs \<and> (\<forall>j < ?room. ?f (data rhs ! j) \<noteq> 0) \<longrightarrow>
                 size_lit (operator_plus_eq conv s rhs) = ArraySize s)"
    using lit shape(1,2) by blast
  from lit_all arr_data shape(3,4) self(1,2) self_content self_outside self(3) arr_part
  show ?thesis by (intro conjI)
qed

text \<open>
  \<^verbatim>\<open>"abc"\<close> of capacity 4 has one free slot: appending the literal \<^verbatim>\<open>"ab"\<close>,
  the wide literal \<^verbatim>\<open>{0x161}\<close>, the array \<^verbatim>\<open>"de"\<close> or the receiver itself fills
  it and the size becomes 4.
\<close>

theorem truncating_append_witness:
  "LiteralString lit_abc \<and> well_shaped lit_abc \<and> LiteralString lit_ab8 \<and> well_shaped lit_ab8
   \<and> ArraySize lit_abc - size_lit lit_abc \<le> size_lit lit_ab8
   \<and> value_type lit_ab8 = value_type lit_abc
   \<and> data (operator_plus_eq low_bits lit_abc lit_ab8) = [97, 98, 99, 97, 0]
   \<and> size_lit (operator_plus_eq low_bits lit_abc lit_ab8) = 4
   \<and> LiteralString wlit_s2 \<and> well_shaped wlit_s2
   \<and> ArraySize lit_abc - size_lit lit_abc \<le> size_lit wlit_s2
   \<and> convert low_bits (value_type wlit_s2) (value_type lit_abc) (data wlit_s2 ! 0) \<noteq> 0
   \<and> data (operator_plus_eq low_bits lit_abc wlit_s2) = [97, 98, 99, 97, 0]
   \<and> size_lit (operator_plus_eq low_bits lit_abc wlit_s2) = 4
   \<and> ArraySize lit_abc - size_lit lit_abc < length [100, 101, 0 :: nat]
   \<and> convert low_bits Char (value_type lit_abc) ([100, 101, 0 :: nat] ! 0) \<noteq> 0
   \<and> data (operator_plus_eq_array low_bits lit_abc Char [100, 101, 0]) = [97, 98, 99, 100, 0]
   \<and> size_lit (operator_plus_eq_array low_bits lit_abc Char [100, 101, 0]) = 4
   \<and> ArraySize lit_abc - size_lit lit_abc \<le> size_lit lit_abc
   \<and> size_lit (operator_plus_eq_self lit_abc) = 4
   \<and> data (operator_plus_eq_self lit_abc) ! 3 = 97
   \<and> data (operator_plus_eq_self lit_abc) ! 4 = 0"
proof -
  let ?arr = "[100, 101, 0 :: nat]"
  have h: "LiteralString lit_abc" "well_shaped lit_abc" "LiteralString lit_ab8" "well_shaped lit_ab8"
    "LiteralString wlit_s2" "well_shaped wlit_s2"
    by code_simp+
  have v: "size_lit lit_abc = 3" "ArraySize lit_abc = 4" "size_lit lit_ab8 = 2"
    "data lit_abc = [97, 98, 99, 0, 0]" "data lit_ab8 = [97, 98, 0, 0, 0, 0, 0, 0, 0]"
    "value_type lit_abc = Char" "value_type lit_ab8 = Char"
    "size_lit wlit_s2 = 1" "data wlit_s2 = [353, 0, 0]" "value_type wlit_s2 = Wchar_t"
    by code_simp+
  have c: "convert low_bits Wchar_t Char 353 = 97" "convert low_bits Char Char = (\<lambda>x. x)"
    "convert low_bits Wchar_t Char 0 = 0"
    by (simp_all add: convert_def low_bits_def fun_eq_iff)
  from truncating_append [OF h(1,2), of lit_ab8 low_bits Char ?arr]
    truncating_append [OF h(1,2), of wlit_s2 low_bits Char ?arr] h
  show ?thesis by (simp add: v c)
qed

subsection \<open>C4: the default-constructed instance\<close>

text \<open>
  C4: the instance that \<^verbatim>\<open>literal_t x;\<close> deduces is an undefined literal. Compared
  with a string literal of any character type, in either order, it is equal exactly when
  the string is empty; compared with a value it is unequal. Two undefined literals are
  always equal, and a value never equals an undefined literal.
\<close>

theorem default_constructed_equality:
  fixes s v a b :: "'a::zero literal_t"
  shows "LiteralUndefined (literal_ctad_default :: 'a::zero literal_t)
   \<and> (LiteralString s \<and> well_shaped s \<longrightarrow>
        operator_eq safe cmp eqv literal_ctad_default s = Inr (size_lit s = 0)
        \<and> operator_eq safe cmp eqv s literal_ctad_default = Inr (size_lit s = 0))
   \<and> (LiteralValue v \<longrightarrow>
        operator_eq safe cmp eqv literal_ctad_default v = Inr False
        \<and> operator_eq safe cmp eqv v literal_ctad_default = Inr False)
   \<and> (LiteralUndefined a \<and> LiteralUndefined b \<longrightarrow> operator_eq safe cmp eqv a b = Inr True)
   \<and> (LiteralValue v \<and> LiteralUndefined b \<longrightarrow>
        operator_eq safe cmp eqv v b = Inr False \<and> operator_eq safe cmp eqv b v = Inr False)"
proof -
  let ?u = "literal_ctad_default :: 'a literal_t"
  have u: "LiteralUndefined ?u" by (rule literal_ctad_default_Undefined)
  have und_str: "operator_eq safe cmp eqv x s = Inr (size_lit s = 0)
                 \<and> operator_eq safe cmp eqv s x = Inr (size_lit s = 0)"
    if "LiteralUndefined x" "LiteralString s" "well_shaped s" for x :: "'a literal_t"
    using that not_String_Undefined [OF that(1)] empty_lit_String [OF that(2,3)]
    by (simp add: operator_eq_def)
  have und_und: "operator_eq safe cmp eqv x y = Inr True"
    if "LiteralUndefined x" "LiteralUndefined y" for x y :: "'a literal_t"
    using that not_String_Undefined [OF that(1)] not_String_Undefined [OF that(2)]
    by (simp add: operator_eq_def LiteralUndefined_def not_comparable_Unsupported)
  have val_und: "operator_eq safe cmp eqv x y = Inr False \<and> operator_eq safe cmp eqv y x = Inr False"
    if "LiteralValue x" "LiteralUndefined y" for x y :: "'a literal_t"
  proof -
    from that have "value_type y = Unsupported" "value_type x \<noteq> Unsupported"
      by (simp_all add: LiteralUndefined_def LiteralValue_def)
    then show ?thesis
      using not_String_Value [OF that(1)] not_String_Undefined [OF that(2)]
      by (simp add: operator_eq_def LiteralUndefined_def not_comparable_Unsupported)
  qed
  from u und_str [OF u] und_und val_und val_und [OF _ u] show ?thesis by blast
qed

text \<open>
  The undefined literal against \<^verbatim>\<open>"abc"\<close>, against the empty string
  \<^verbatim>\<open>"\0\0\0"\<close>, against the value \<^verbatim>\<open>'a'\<close> and against itself.
\<close>

theorem default_constructed_equality_witness:
  "LiteralString lit_abc \<and> well_shaped lit_abc \<and> LiteralString lit_empty4 \<and> well_shaped lit_empty4
   \<and> LiteralValue val_a \<and> LiteralUndefined lit_undefined
   \<and> operator_eq True no_cmp same_code lit_undefined lit_abc = Inr False
   \<and> operator_eq True no_cmp same_code lit_undefined lit_empty4 = Inr True
   \<and> operator_eq True no_cmp same_code lit_undefined val_a = Inr False
   \<and> operator_eq True no_cmp same_code val_a lit_undefined = Inr False
   \<and> operator_eq True no_cmp same_code lit_undefined lit_undefined = Inr True"
proof -
  have h1: "LiteralString lit_abc \<and> well_shaped lit_abc"
    by (rule LiteralString_lit_abc)
  have h2: "LiteralString lit_empty4 \<and> well_shaped lit_empty4"
    by (simp add: lit_empty4_def LiteralString_def LiteralChar_def well_shaped_def)
  have h3: "LiteralValue val_a"
    by (simp add: val_a_def literal_ctad_scalar_def literal_scalar_def LiteralValue_def)
  have h4: "LiteralUndefined lit_undefined"
    unfolding lit_undefined_def by (rule literal_ctad_default_Undefined)
  have sz: "size_lit lit_abc = 3" "size_lit lit_empty4 = 0"
    by (simp_all add: lit_abc_def lit_empty4_def size_lit_def Undefined_def)
  from default_constructed_equality [where s = lit_abc and safe = True and cmp = no_cmp
      and eqv = same_code and v = val_a and a = lit_undefined and b = lit_undefined]
    default_constructed_equality [where s = lit_empty4 and safe = True and cmp = no_cmp
      and eqv = same_code and v = val_a and a = lit_undefined and b = lit_undefined]
    h1 h2 h3 h4 sz
  show ?thesis by (simp add: lit_undefined_def)
qed

subsection \<open>C5: a string against a value\<close>

text \<open>
  C5: for a string literal \<open>s\<close> and a value \<open>v\<close> of comparable element types, \<open>s == v\<close>
  (and \<open>v == s\<close>) holds exactly when both are empty or \<open>s\<close> has size one and its element
  equals the element stored in \<open>v\<close>; for element types that are not comparable the result is
  false. A value has size 0 and is always empty, so both are empty exactly when the size
  of \<open>s\<close> is 0. The two elements are compared by \<^verbatim>\<open>==\<close>: on one character type by
  their codes, on two different types after the conversion of the language.
\<close>

theorem string_value_equality:
  assumes "LiteralString s" "well_shaped s" "LiteralValue v"
  shows "operator_eq safe cmp eqv s v =
           Inr (if equality_comparable_with cmp (value_type s) (value_type v)
                then size_lit s = 0
                     \<or> (size_lit s = 1
                        \<and> (if value_type s = value_type v then data s ! 0 = data v ! 0
                            else eqv (value_type s) (value_type v) (data s ! 0) (data v ! 0)))
                else False)
         \<and> operator_eq safe cmp eqv v s =
           Inr (if equality_comparable_with cmp (value_type v) (value_type s)
                then size_lit s = 0
                     \<or> (size_lit s = 1
                        \<and> (if value_type v = value_type s then data v ! 0 = data s ! 0
                            else eqv (value_type v) (value_type s) (data v ! 0) (data s ! 0)))
                else False)
         \<and> size_lit v = 0 \<and> empty_lit v
         \<and> ((empty_lit s \<and> empty_lit v) = (size_lit s = 0))"
proof -
  have chr: "LiteralChar (value_type s)" using assms(1) by (simp add: LiteralString_def)
  have nv: "\<not> LiteralString v" "\<not> LiteralUndefined v" "empty_lit v" "size_lit v = 0"
    using assms(3) not_String_Value empty_lit_Value
    by (auto simp: LiteralValue_def LiteralUndefined_def size_lit_def)
  have es: "empty_lit s = (size_lit s = 0)" using assms(1,2) by (rule empty_lit_String)
  have sv: "subscript safe v 0 = Inr (data v ! 0)" using assms(3) by (rule subscript_Value)
  have ss: "subscript safe s 0 = Inr (data s ! 0)" if "size_lit s = 1"
    using assms(2) that by (simp add: subscript_in_size)
  have l: "or_else (Inr (empty_lit s \<and> empty_lit v))
             (and_then (Inr (size_lit s = 1))
                (elems_equal eqv (value_type s) (value_type v) (subscript safe s 0) (subscript safe v 0)))
           = Inr (size_lit s = 0
                  \<or> (size_lit s = 1
                     \<and> (if value_type s = value_type v then data s ! 0 = data v ! 0
                         else eqv (value_type s) (value_type v) (data s ! 0) (data v ! 0))))"
    using sv ss nv(3) es chr
    by (auto simp: or_else_def and_then_def elems_equal_def equal_values_def)
  have r: "or_else (Inr (empty_lit v \<and> empty_lit s))
             (and_then (Inr (size_lit s = 1))
                (elems_equal eqv (value_type v) (value_type s) (subscript safe v 0) (subscript safe s 0)))
           = Inr (size_lit s = 0
                  \<or> (size_lit s = 1
                     \<and> (if value_type v = value_type s then data v ! 0 = data s ! 0
                         else eqv (value_type v) (value_type s) (data v ! 0) (data s ! 0))))"
    using sv ss nv(3) es chr
    by (auto simp: or_else_def and_then_def elems_equal_def equal_values_def)
  have a: "operator_eq safe cmp eqv s v =
           Inr (if equality_comparable_with cmp (value_type s) (value_type v)
                then size_lit s = 0
                     \<or> (size_lit s = 1
                        \<and> (if value_type s = value_type v then data s ! 0 = data v ! 0
                            else eqv (value_type s) (value_type v) (data s ! 0) (data v ! 0)))
                else False)"
    using assms(1) nv(1,2) l by (simp add: operator_eq_def)
  have b: "operator_eq safe cmp eqv v s =
           Inr (if equality_comparable_with cmp (value_type v) (value_type s)
                then size_lit s = 0
                     \<or> (size_lit s = 1
                        \<and> (if value_type v = value_type s then data v ! 0 = data s ! 0
                            else eqv (value_type v) (value_type s) (data v ! 0) (data s ! 0)))
                else False)"
    using assms(1) nv(1,2) r by (simp add: operator_eq_def)
  have e: "(empty_lit s \<and> empty_lit v) = (size_lit s = 0)" using es nv(3) by simp
  from a b nv(4,3) e show ?thesis by (intro conjI)
qed

text \<open>
  \<^verbatim>\<open>"a"\<close> and \<^verbatim>\<open>"abc"\<close> against the value \<^verbatim>\<open>'a'\<close>, the empty string against
  it, and \<^verbatim>\<open>"a"\<close> against a value without comparison.
\<close>

theorem string_value_equality_witness:
  "LiteralString lit_a \<and> well_shaped lit_a \<and> LiteralValue val_a \<and> LiteralValue val_opaque
   \<and> LiteralString lit_abc \<and> well_shaped lit_abc \<and> LiteralString lit_empty4 \<and> well_shaped lit_empty4
   \<and> operator_eq True no_cmp same_code lit_a val_a = Inr True
   \<and> operator_eq True no_cmp same_code lit_abc val_a = Inr False
   \<and> operator_eq True no_cmp same_code lit_empty4 val_a = Inr True
   \<and> operator_eq True no_cmp same_code lit_a val_opaque = Inr False"
proof -
  have h1: "LiteralString lit_a" "well_shaped lit_a" "LiteralString lit_abc" "well_shaped lit_abc"
    "LiteralString lit_empty4" "well_shaped lit_empty4"
    by code_simp+
  have h2: "LiteralValue val_a" "LiteralValue val_opaque"
    by (simp_all add: val_a_def val_opaque_def literal_ctad_scalar_def literal_scalar_def
        LiteralValue_def)
  have sz: "size_lit lit_a = 1" "data lit_a ! 0 = 97" "value_type lit_a = Char"
    "size_lit lit_abc = 3" "value_type lit_abc = Char"
    "size_lit lit_empty4 = 0" "value_type lit_empty4 = Char"
    by code_simp+
  have v: "data val_a ! 0 = 97" "value_type val_a = Char" "value_type val_opaque = Other ''Opaque''"
    by (simp_all add: val_a_def val_opaque_def literal_ctad_scalar_def literal_scalar_def)
  have c: "equality_comparable_with no_cmp Char Char"
    "\<not> equality_comparable_with no_cmp Char (Other ''Opaque'')"
    by (simp_all add: equality_comparable_with_def LiteralChar_def no_cmp_def)
  from string_value_equality [OF h1(1,2) h2(1), of True no_cmp same_code]
    string_value_equality [OF h1(3,4) h2(1), of True no_cmp same_code]
    string_value_equality [OF h1(5,6) h2(1), of True no_cmp same_code]
    string_value_equality [OF h1(1,2) h2(2), of True no_cmp same_code] h1 h2 sz v c
  show ?thesis by simp
qed

subsection \<open>C6: search with an operand of larger capacity\<close>

text \<open>
  C6: each of the six search members is to report \<open>npos\<close> when the operand is a string
  literal of a capacity larger than the receiver's. The overload that does so is selected
  only by a call that writes the template argument out. Evaluated on the receiver
  \<^verbatim>\<open>"abcd"\<close> of capacity 4 and the operand \<^verbatim>\<open>"ab"\<close> of capacity 8, the plain
  calls \<^verbatim>\<open>find\<close>, \<^verbatim>\<open>rfind\<close>, \<^verbatim>\<open>find_first_of\<close>, \<^verbatim>\<open>find_last_of\<close>,
  \<^verbatim>\<open>find_first_not_of\<close> and \<^verbatim>\<open>find_last_not_of\<close> (the reverse ones with their
  default position \<open>npos\<close>) return the positions 0, 0, 0, 1, 2 and 3, none of which is
  \<open>npos\<close>.
\<close>

theorem search_call_larger_operand:
  "LiteralString lit_abcd \<and> LiteralString lit_ab8 \<and> ArraySize lit_abcd < ArraySize lit_ab8
   \<and> search_call Find lit_abcd lit_ab8 0 = 0
   \<and> search_call Rfind lit_abcd lit_ab8 npos = 0
   \<and> search_call Find_first_of lit_abcd lit_ab8 0 = 0
   \<and> search_call Find_last_of lit_abcd lit_ab8 npos = 1
   \<and> search_call Find_first_not_of lit_abcd lit_ab8 0 = 2
   \<and> search_call Find_last_not_of lit_abcd lit_ab8 npos = 3
   \<and> npos = 18446744073709551615"
proof -
  have len: "length (sv lit_abcd) = 4" by code_simp
  then have le: "length (sv lit_abcd) \<le> npos" by (simp add: npos_value)
  have fwd: "LiteralString lit_abcd \<and> LiteralString lit_ab8 \<and> ArraySize lit_abcd < ArraySize lit_ab8
     \<and> search_call Find lit_abcd lit_ab8 0 = 0
     \<and> search_call Find_first_of lit_abcd lit_ab8 0 = 0
     \<and> search_call Find_first_not_of lit_abcd lit_ab8 0 = 2"
    by code_simp
  have "search_call Rfind lit_abcd lit_ab8 4 = 0
     \<and> search_call Find_last_of lit_abcd lit_ab8 4 = 1
     \<and> search_call Find_last_not_of lit_abcd lit_ab8 4 = 3"
    by code_simp
  then have bwd: "search_call Rfind lit_abcd lit_ab8 npos = 0
     \<and> search_call Find_last_of lit_abcd lit_ab8 npos = 1
     \<and> search_call Find_last_not_of lit_abcd lit_ab8 npos = 3"
    using sv_search_clamp [OF le] by (simp add: search_call_def search_view_def len)
  from fwd bwd npos_value show ?thesis by simp
qed

subsection \<open>C7: the storage invariant\<close>

text \<open>
  C7, as stated: for every instance the slot at index \<^verbatim>\<open>size()\<close> holds zero, and
  construction and array assignment keep it so. The value \<^verbatim>\<open>'a'\<close> has size 0 and holds
  \<^verbatim>\<open>'a'\<close> in slot 0. The capacity-4 string built from the five characters
  \<^verbatim>\<open>{'a','b','c','d','e'}\<close> has size 4 and holds \<^verbatim>\<open>'e'\<close> in slot 4, and so has
  \<^verbatim>\<open>"abc"\<close> of capacity 4 after the assignment of that array.
\<close>

theorem invariant_broken_by_value_and_full_array:
  "LiteralValue val_a \<and> \<not> storage_invariant val_a
   \<and> literal_array Char 4 [97, 98, 99, 100, 101 :: nat] = Some lit_abcde4
   \<and> LiteralString lit_abcde4 \<and> \<not> storage_invariant lit_abcde4
   \<and> LiteralString lit_abc \<and> storage_invariant lit_abc
   \<and> assign_array lit_abc [97, 98, 99, 100, 101] = Some lit_abcde4"
  by code_simp

text \<open>
  C7, amended: every instance has \<open>0 \<le> size() \<le> N\<close>. A string literal whose last slot,
  the one at index \<open>N\<close>, holds zero has zero in the slot at index \<^verbatim>\<open>size()\<close>. The last
  slot holds zero after default construction, after construction from a scalar when
  \<open>N > 0\<close>, from an instance of a smaller capacity, from an array of at most \<open>N\<close>
  elements or of \<open>N + 1\<close> elements ending in zero (so always when the capacity is deduced
  from the array), and after \<^verbatim>\<open>substr\<close>; the assignment of such an array and the
  truncating append keep it zero, and so does the copy of an instance whose last slot
  holds zero. A value (\<open>N = 0\<close>) built from a scalar has size 0 and holds the scalar, zero or
  not, in slot 0.
\<close>

theorem storage_invariants:
  fixes s rhs other :: "'a::zero literal_t" and arr :: "'a list" and c :: 'a
  shows "size_lit s \<le> ArraySize s
   \<and> (LiteralString s \<and> well_shaped s \<and> terminated s \<longrightarrow> storage_invariant s)
   \<and> well_shaped (literal_default T N :: 'a literal_t)
   \<and> terminated (literal_default T N :: 'a literal_t)
   \<and> well_shaped (literal_scalar T N c)
   \<and> (0 < N \<longrightarrow> terminated (literal_scalar T N c))
   \<and> size_lit (literal_scalar T 0 c) = 0 \<and> data (literal_scalar T 0 c) ! 0 = c
   \<and> (\<forall>r. literal_widen conv T N other = Some r \<and> well_shaped other
          \<and> (ArraySize other < N \<or> terminated other) \<longrightarrow>
          well_shaped r \<and> terminated r)
   \<and> (\<forall>r. literal_array T N arr = Some r \<and> (length arr \<le> N \<or> last arr = 0) \<longrightarrow>
          well_shaped r \<and> terminated r)
   \<and> (\<exists>r. literal_ctad_array T arr = Some r \<and> well_shaped r \<and> terminated r)
   \<and> (\<forall>r. well_shaped s \<and> terminated s \<and> assign_array s arr = Some r
          \<and> (length arr \<le> ArraySize s \<or> last arr = 0) \<longrightarrow>
          well_shaped r \<and> terminated r)
   \<and> (well_shaped s \<and> terminated s \<longrightarrow>
          well_shaped (operator_plus_eq conv s rhs) \<and> terminated (operator_plus_eq conv s rhs)
          \<and> well_shaped (operator_plus_eq_array conv s C arr)
          \<and> terminated (operator_plus_eq_array conv s C arr))
   \<and> well_shaped (substr s pos count) \<and> terminated (substr s pos count)"
proof -
  have 1: "size_lit s \<le> ArraySize s" by (rule size_lit_le)
  have 2: "LiteralString s \<and> well_shaped s \<and> terminated s \<longrightarrow> storage_invariant s"
    using terminated_storage_invariant by blast
  have 3: "well_shaped (literal_default T N :: 'a literal_t)"
    "terminated (literal_default T N :: 'a literal_t)"
    by (rule well_shaped_default, rule terminated_default)
  have 4: "well_shaped (literal_scalar T N c)" "0 < N \<longrightarrow> terminated (literal_scalar T N c)"
    "size_lit (literal_scalar T 0 c) = 0" "data (literal_scalar T 0 c) ! 0 = c"
    by (simp_all add: literal_scalar_facts)
  have 5: "\<forall>r. literal_widen conv T N other = Some r \<and> well_shaped other
          \<and> (ArraySize other < N \<or> terminated other) \<longrightarrow>
          well_shaped r \<and> terminated r"
    using terminated_literal_widen by blast
  have 6: "\<forall>r. literal_array T N arr = Some r \<and> (length arr \<le> N \<or> last arr = 0) \<longrightarrow>
          well_shaped r \<and> terminated r"
    using literal_array_facts(3) terminated_literal_array by blast
  have 7: "\<exists>r. literal_ctad_array T arr = Some r \<and> well_shaped r \<and> terminated r"
    by (rule literal_ctad_array_terminated)
  have 8: "\<forall>r. well_shaped s \<and> terminated s \<and> assign_array s arr = Some r
          \<and> (length arr \<le> ArraySize s \<or> last arr = 0) \<longrightarrow>
          well_shaped r \<and> terminated r"
    using assign_array_facts by blast
  have 9: "well_shaped s \<and> terminated s \<longrightarrow>
          well_shaped (operator_plus_eq conv s rhs) \<and> terminated (operator_plus_eq conv s rhs)
          \<and> well_shaped (operator_plus_eq_array conv s C arr)
          \<and> terminated (operator_plus_eq_array conv s C arr)"
    by (simp add: operator_plus_eq_def operator_plus_eq_array_def well_shaped_append_elems
        terminated_append_elems)
  have 10: "well_shaped (substr s pos count)" "terminated (substr s pos count)"
    by (simp add: well_shaped_def substr_fields, rule terminated_substr)
  from 1 2 3 4 5 6 7 8 9 10 show ?thesis by (intro conjI)
qed

text \<open>
  \<^verbatim>\<open>"abc"\<close> of capacity 4, its widening to capacity 8 and its copy, a construction
  from an array, the assignment of an array of 4 and of one of 3 elements, both appends,
  a scalar and a substring.
\<close>

theorem storage_invariants_witness:
  "LiteralString lit_abc \<and> well_shaped lit_abc \<and> terminated lit_abc \<and> storage_invariant lit_abc
   \<and> literal_widen low_bits Char 8 lit_abc \<noteq> None
   \<and> terminated (the (literal_widen low_bits Char 8 lit_abc))
   \<and> literal_widen low_bits Char 4 lit_abc = Some lit_abc
   \<and> literal_array Char 4 [100, 101, 0 :: nat] \<noteq> None
   \<and> terminated (the (literal_array Char 4 [100, 101, 0 :: nat]))
   \<and> assign_array lit_abc [119, 120, 121, 122] \<noteq> None
   \<and> terminated (the (assign_array lit_abc [119, 120, 121, 122]))
   \<and> assign_array lit_abc [100, 101, 0] \<noteq> None
   \<and> terminated (the (assign_array lit_abc [100, 101, 0]))
   \<and> terminated (operator_plus_eq low_bits lit_abc lit_ab8)
   \<and> terminated (operator_plus_eq_array low_bits lit_abc Char [100, 101, 0])
   \<and> terminated (literal_scalar Char 4 (97::nat))
   \<and> terminated (substr lit_abc 1 2)"
proof -
  have h: "LiteralString lit_abc" "well_shaped lit_abc" "terminated lit_abc" by code_simp+
  obtain w where w: "literal_widen low_bits Char 8 lit_abc = Some w"
    by (simp add: literal_widen_def lit_abc_def)
  have cp: "literal_widen low_bits Char 4 lit_abc = Some lit_abc"
    by (simp add: literal_widen_def lit_abc_def)
  have lt: "ArraySize lit_abc < 8" by (simp add: lit_abc_def)
  obtain a where a: "literal_array Char 4 [100, 101, 0 :: nat] = Some a"
    by (simp add: literal_array_def)
  have la: "length [100, 101, 0 :: nat] \<le> 4" "length [119, 120, 121, 122 :: nat] \<le> ArraySize lit_abc"
    "length [100, 101, 0 :: nat] \<le> ArraySize lit_abc"
    by (simp_all add: lit_abc_def)
  obtain g where g: "assign_array lit_abc [119, 120, 121, 122] = Some g"
    by (simp add: assign_array_def lit_abc_def)
  obtain g' where g': "assign_array lit_abc [100, 101, 0] = Some g'"
    by (simp add: assign_array_def literal_array_def lit_abc_def)
  note t1 = storage_invariants [where s = lit_abc and T = Char and N = 8 and c = 97
      and conv = low_bits and other = lit_abc and arr = "[100, 101, 0]" and rhs = lit_ab8
      and C = Char and pos = 1 and count = 2]
  note t2 = storage_invariants [where s = lit_abc and T = Char and N = 4 and c = 97
      and conv = low_bits and other = lit_abc and arr = "[100, 101, 0]" and rhs = lit_ab8
      and C = Char and pos = 1 and count = 2]
  note t3 = storage_invariants [where s = lit_abc and T = Char and N = 4 and c = 97
      and conv = low_bits and other = lit_abc and arr = "[119, 120, 121, 122]" and rhs = lit_ab8
      and C = Char and pos = 1 and count = 2]
  from t1 have "LiteralString lit_abc \<and> well_shaped lit_abc \<and> terminated lit_abc
      \<longrightarrow> storage_invariant lit_abc"
    by (elim conjE)
  then have 1: "storage_invariant lit_abc" using h by simp
  from t1 have "\<forall>r. literal_widen low_bits Char 8 lit_abc = Some r \<and> well_shaped lit_abc
       \<and> (ArraySize lit_abc < 8 \<or> terminated lit_abc) \<longrightarrow> well_shaped r \<and> terminated r"
    by (elim conjE)
  then have 2: "terminated (the (literal_widen low_bits Char 8 lit_abc))" using w h lt by simp
  from t2 have "\<forall>r. literal_array Char 4 [100, 101, 0 :: nat] = Some r
       \<and> (length [100, 101, 0 :: nat] \<le> 4 \<or> last [100, 101, 0 :: nat] = 0)
       \<longrightarrow> well_shaped r \<and> terminated r"
    by (elim conjE)
  then have 3: "terminated (the (literal_array Char 4 [100, 101, 0 :: nat]))" using a la by simp
  from t3 have "\<forall>r. well_shaped lit_abc \<and> terminated lit_abc
       \<and> assign_array lit_abc [119, 120, 121, 122] = Some r
       \<and> (length [119, 120, 121, 122 :: nat] \<le> ArraySize lit_abc \<or> last [119, 120, 121, 122 :: nat] = 0)
       \<longrightarrow> well_shaped r \<and> terminated r"
    by (elim conjE)
  then have 4: "terminated (the (assign_array lit_abc [119, 120, 121, 122]))"
    using g h la(2) by simp
  from t2 have "\<forall>r. well_shaped lit_abc \<and> terminated lit_abc
       \<and> assign_array lit_abc [100, 101, 0] = Some r
       \<and> (length [100, 101, 0 :: nat] \<le> ArraySize lit_abc \<or> last [100, 101, 0 :: nat] = 0)
       \<longrightarrow> well_shaped r \<and> terminated r"
    by (elim conjE)
  then have 8: "terminated (the (assign_array lit_abc [100, 101, 0]))"
    using g' h la(3) by simp
  from t2 have "well_shaped lit_abc \<and> terminated lit_abc \<longrightarrow>
          well_shaped (operator_plus_eq low_bits lit_abc lit_ab8)
          \<and> terminated (operator_plus_eq low_bits lit_abc lit_ab8)
          \<and> well_shaped (operator_plus_eq_array low_bits lit_abc Char [100, 101, 0])
          \<and> terminated (operator_plus_eq_array low_bits lit_abc Char [100, 101, 0])"
    by (elim conjE)
  then have 5: "terminated (operator_plus_eq low_bits lit_abc lit_ab8)"
    "terminated (operator_plus_eq_array low_bits lit_abc Char [100, 101, 0])" using h by simp_all
  from t2 have "0 < (4::nat) \<longrightarrow> terminated (literal_scalar Char 4 (97::nat))"
    by (elim conjE)
  then have 6: "terminated (literal_scalar Char 4 (97::nat))" by simp
  from t2 have 7: "terminated (substr lit_abc 1 2)"
    by (elim conjE)
  from h 1 2 3 4 8 5 6 7 w a g g' cp show ?thesis by simp
qed

subsection \<open>C8: indexed access\<close>

text \<open>
  C8: with the index check compiled in, \<^verbatim>\<open>s[n]\<close> on a string literal raises the range
  error for every \<open>n\<close> at or beyond \<^verbatim>\<open>s.size()\<close>, the index \<^verbatim>\<open>s.size()\<close>
  included, and returns element \<open>n\<close> for every \<open>n\<close> below it. The operator writes no slot:
  its result is a function of the instance, which is therefore the same before and after a
  failed access, and a later access below \<^verbatim>\<open>s.size()\<close> still returns its element.
  Without the check no range error is raised, and every slot of the storage is returned
  as it is.
\<close>

theorem subscript_safe_mode:
  assumes "LiteralString s" "well_shaped s"
  shows "(size_lit s \<le> n \<longrightarrow> subscript True s n = Inl range_error)
         \<and> subscript True s (size_lit s) = Inl range_error
         \<and> (n < size_lit s \<longrightarrow> subscript True s n = Inr (data s ! n))
         \<and> (size_lit s \<le> n \<and> m < size_lit s \<longrightarrow>
              subscript True s n = Inl range_error \<and> subscript True s m = Inr (data s ! m))
         \<and> subscript False s n \<noteq> Inl range_error
         \<and> (n \<le> ArraySize s \<longrightarrow> subscript False s n = Inr (data s ! n))"
proof -
  from assms(1) have pos: "0 < ArraySize s" by (simp add: LiteralString_def)
  have a: "subscript True s k = Inl range_error" if "size_lit s \<le> k" for k
    using pos that by (simp add: subscript_def)
  have b: "subscript True s k = Inr (data s ! k)" if "k < size_lit s" for k
    using assms(2) that by (rule subscript_in_size)
  have c: "subscript False s n \<noteq> Inl range_error"
    by (simp add: subscript_def)
  have d: "subscript False s n = Inr (data s ! n)" if "n \<le> ArraySize s"
    using pos that assms(2) by (simp add: subscript_def well_shaped_def)
  from a b c d show ?thesis by simp
qed

text \<open>\<^verbatim>\<open>"abc"\<close> at the indices 3 and 1, checked and unchecked.\<close>

theorem subscript_safe_mode_witness:
  "LiteralString lit_abc \<and> well_shaped lit_abc \<and> size_lit lit_abc \<le> 3 \<and> 1 < size_lit lit_abc
   \<and> subscript True lit_abc 3 = Inl range_error \<and> subscript True lit_abc 1 = Inr 98
   \<and> subscript False lit_abc 3 = Inr 0"
proof -
  have h: "LiteralString lit_abc" "well_shaped lit_abc"
    using LiteralString_lit_abc by simp_all
  have d: "data lit_abc ! 1 = 98" "data lit_abc ! 3 = 0" "ArraySize lit_abc = 4"
    by (simp_all add: lit_abc_def)
  from subscript_safe_mode [OF h, of 3 1] subscript_safe_mode [OF h, of 1 1] h d
  show ?thesis by (simp add: size_lit_abc)
qed

subsection \<open>C9: the full substring\<close>

text \<open>
  C9: for every string literal \<open>s\<close>, \<^verbatim>\<open>s == s.substr(0, s.size())\<close> holds, in both
  configurations of the index check and without any access raising.
\<close>

theorem substr_full_range_equal:
  assumes "LiteralString s" "well_shaped s"
  shows "operator_eq safe cmp eqv s (substr s 0 (size_lit s)) = Inr True"
proof -
  let ?r = "substr s 0 (size_lit s)"
  have str: "LiteralString ?r" using assms(1) by (simp add: LiteralString_def substr_fields)
  have ws: "well_shaped ?r" by (simp add: well_shaped_def substr_fields)
  have sz: "size_lit ?r = size_lit s" using size_substr [OF assms, of 0 "size_lit s"] by simp
  have els: "data s ! j = data ?r ! j" if "j < size_lit s" for j
  proof -
    have "0 < size_lit s" using that by linarith
    moreover have "j \<le> ArraySize s" using that size_lit_le [of s] by linarith
    ultimately show ?thesis using that by (simp add: nth_substr)
  qed
  have chr: "LiteralChar (value_type s)" using assms(1) by (simp add: LiteralString_def)
  have "eq_loop safe eqv s ?r 0 =
      Inr (\<forall>j. 0 \<le> j \<and> j < size_lit s \<longrightarrow>
             equal_values eqv (value_type s) (value_type ?r) (data s ! j) (data ?r ! j))"
    using assms(2) ws sz by (simp add: eq_loop_elementwise)
  moreover have "equal_values eqv (value_type s) (value_type ?r) (data s ! j) (data ?r ! j)"
    if "j < size_lit s" for j
    using els [OF that] chr by (simp add: equal_values_def substr_fields)
  ultimately have "eq_loop safe eqv s ?r 0 = Inr True" by simp
  with assms(1) str sz show ?thesis by (simp add: operator_eq_def)
qed

text \<open>\<^verbatim>\<open>"abc"\<close> with the index check compiled in.\<close>

theorem substr_full_range_equal_witness:
  "LiteralString lit_abc \<and> well_shaped lit_abc
   \<and> operator_eq True no_cmp same_code lit_abc (substr lit_abc 0 (size_lit lit_abc)) = Inr True"
proof -
  have h: "LiteralString lit_abc" "well_shaped lit_abc"
    using LiteralString_lit_abc by simp_all
  from h substr_full_range_equal [OF h] show ?thesis by blast
qed

subsection \<open>C10: a substring from beyond the content\<close>

text \<open>
  C10: for a string literal \<open>s\<close> and any count, \<^verbatim>\<open>s.substr(pos, c)\<close> with
  \<open>pos\<close> at or beyond \<^verbatim>\<open>s.size()\<close> is the default-constructed instance of the same
  element type and capacity: it is empty and every slot holds zero. For an empty \<open>s\<close> this
  is so for every position and count.
\<close>

theorem substr_beyond_size_default:
  assumes "LiteralString s"
  shows "(size_lit s \<le> pos \<longrightarrow>
            substr s pos c = literal_default (value_type s) (ArraySize s)
            \<and> ArraySize (substr s pos c) = ArraySize s
            \<and> data (substr s pos c) = replicate (Suc (ArraySize s)) 0
            \<and> size_lit (substr s pos c) = 0 \<and> empty_lit (substr s pos c))
         \<and> (size_lit s = 0 \<longrightarrow>
            substr s pos c = literal_default (value_type s) (ArraySize s)
            \<and> size_lit (substr s pos c) = 0 \<and> empty_lit (substr s pos c))"
proof -
  let ?d = "literal_default (value_type s) (ArraySize s) :: 'a literal_t"
  have str: "LiteralString ?d" using assms by (simp add: LiteralString_def literal_default_simps)
  have "empty_lit ?d = (size_lit ?d = 0)"
    using str well_shaped_default by (rule empty_lit_String)
  then have e: "empty_lit ?d" by (simp add: size_lit_default)
  have "substr s pos c = ?d" if "size_lit s \<le> pos"
    using that by (rule substr_beyond)
  with e show ?thesis by (simp add: size_lit_default literal_default_simps)
qed

text \<open>\<^verbatim>\<open>"abc"\<close> from position 3, the size of the string.\<close>

theorem substr_beyond_size_default_witness:
  "LiteralString lit_abc \<and> size_lit lit_abc \<le> 3
   \<and> substr lit_abc 3 2 = literal_default Char 4
   \<and> data (substr lit_abc 3 2) = [0, 0, 0, 0, 0]
   \<and> LiteralString lit_empty4 \<and> size_lit lit_empty4 = 0
   \<and> substr lit_empty4 0 2 = literal_default Char 4
   \<and> empty_lit (substr lit_empty4 0 2)"
proof -
  have h: "LiteralString lit_abc" using LiteralString_lit_abc by simp
  have sz: "size_lit lit_abc \<le> 3" by (simp add: size_lit_abc)
  have v: "value_type lit_abc = Char" "ArraySize lit_abc = 4" by (simp_all add: lit_abc_def)
  have e: "LiteralString lit_empty4" "size_lit lit_empty4 = 0"
    "value_type lit_empty4 = Char" "ArraySize lit_empty4 = 4"
    by code_simp+
  have z: "replicate (Suc 4) (0::nat) = [0, 0, 0, 0, 0]" by (simp add: numeral_eq_Suc)
  from substr_beyond_size_default [OF h, of 3 2] sz
  have a: "substr lit_abc 3 2 = literal_default (value_type lit_abc) (ArraySize lit_abc)"
    "data (substr lit_abc 3 2) = replicate (Suc (ArraySize lit_abc)) 0"
    by blast+
  from substr_beyond_size_default [OF e(1), of 0 2] e(2)
  have b: "substr lit_empty4 0 2 = literal_default (value_type lit_empty4) (ArraySize lit_empty4)"
    "empty_lit (substr lit_empty4 0 2)"
    by blast+
  have "substr lit_abc 3 2 = literal_default Char 4" using a(1) by (simp only: v)
  moreover have "data (substr lit_abc 3 2) = [0, 0, 0, 0, 0]" using a(2) by (simp only: v z)
  moreover have "substr lit_empty4 0 2 = literal_default Char 4" using b(1) by (simp only: e)
  ultimately show ?thesis using h sz e(1,2) b(2) by (intro conjI)
qed

end
